(* ===== verification/Prelude.thy ===== *)
theory Prelude
  imports Complex_Main "HOL-Library.Word" "HOL-Library.Product_Lexorder"
begin

text \<open>
  Shared vocabulary of the development: the byte type of the canvas pixel buffer, the
  collection of evaluation rules for the JavaScript operations, and generic lemmas on
  lists laid out in equal-sized blocks (the channel planes of the tensor) and on
  bounded list updates (the typed-array stores of the preprocessing loop).
\<close>

type_synonym byte = "8 word"

text \<open>Equations that evaluate the model's JavaScript builtins on concrete values.\<close>

named_theorems js_simps "evaluation rules for the JavaScript builtins of the model"

subsection \<open>Lists made of equal-sized blocks\<close>

lemma length_concat_blocks:
  assumes "\<And>x. x \<in> set xs \<Longrightarrow> length (f x) = n"
  shows "length (concat (map f xs)) = length xs * n"
  using assms by (induction xs) auto

lemma nth_concat_blocks:
  assumes "\<And>x. x \<in> set xs \<Longrightarrow> length (f x) = n"
    and "c < length xs" and "p < n"
  shows "concat (map f xs) ! (c * n + p) = f (xs ! c) ! p"
  using assms
proof (induction xs arbitrary: c)
  case Nil
  then show ?case by simp
next
  case (Cons x xs)
  show ?case
  proof (cases c)
    case 0
    with Cons.prems show ?thesis by (simp add: nth_append)
  next
    case (Suc c')
    have lx: "length (f x) = n" using Cons.prems(1) by simp
    have "concat (map f (x # xs)) ! (c * n + p) = concat (map f xs) ! (c' * n + p)"
      using Suc lx by (simp add: nth_append algebra_simps)
    also have "\<dots> = f (xs ! c') ! p"
      using Cons.prems Suc by (intro Cons.IH) auto
    finally show ?thesis using Suc by simp
  qed
qed

lemma nth_concat_replicate:
  "p < n \<Longrightarrow> c < length xs \<Longrightarrow> concat (replicate n xs) ! (length xs * p + c) = xs ! c"
proof (induction n arbitrary: p)
  case 0
  then show ?case by simp
next
  case (Suc n)
  then show ?case by (cases p) (auto simp: nth_append algebra_simps)
qed

lemma length_concat_replicate: "length (concat (replicate n xs)) = n * length xs"
  by (induction n) auto

subsection \<open>Halving and doubling a rational\<close>

text \<open>The measures that make the search for a binary exponent terminate: doubling a
  value below \<open>1/2\<close> lowers the ceiling of its inverse, halving a value of at least 4
  lowers its floor.\<close>

lemma log2_floor_measure_up:
  assumes "0 < x" "2 * x < (1::rat)"
  shows "\<lceil>1 / (2 * x)\<rceil> < \<lceil>1 / x\<rceil>"
proof -
  have "2 < 1 / x" using assms by (simp add: field_simps)
  have "of_int \<lceil>1 / (2 * x)\<rceil> < 1 / (2 * x) + 1"
    using ceiling_correct [of "1 / (2 * x)"] by linarith
  moreover have "1 / (2 * x) + 1 \<le> 1 / x" using \<open>2 < 1 / x\<close> assms by (simp add: field_simps)
  moreover have "1 / x \<le> of_int \<lceil>1 / x\<rceil>" by (rule le_of_int_ceiling)
  ultimately show ?thesis by linarith
qed

lemma log2_floor_measure_down:
  assumes "4 \<le> (x::rat)"
  shows "\<lfloor>x / 2\<rfloor> < \<lfloor>x\<rfloor>"
proof -
  have "of_int \<lfloor>x / 2\<rfloor> \<le> x / 2" by (rule of_int_floor_le)
  moreover have "x - 1 < of_int \<lfloor>x\<rfloor>" using floor_correct [of x] by simp
  ultimately show ?thesis using assms by linarith
qed

subsection \<open>Bounded updates\<close>

text \<open>A store that is ignored out of range keeps the length and touches one slot.\<close>

lemma nth_bounded_update:
  "j < length xs \<Longrightarrow>
   (if k < length xs then xs[k := v] else xs) ! j = (if j = k then v else xs ! j)"
  by auto

lemma length_bounded_update [simp]:
  "length (if k < length xs then xs[k := v] else xs) = length xs"
  by simp

end
