(* ===== verification/Float.thy ===== *)
theory Float
  imports Prelude
begin

text \<open>
  IEEE 754 binary floating point, as far as the script's arithmetic needs it: a value
  of precision \<open>p\<close> bits and least normal exponent \<open>emin\<close> is an integer multiple of
  the quantum \<open>2^k\<close> at its exponent, and rounding (roundTiesToEven) picks the
  nearest multiple, the even one on a tie. \<open>log2_floor\<close> finds the exponent by
  halving or doubling (a \<^theory_text>\<open>function\<close> with a measure). Doubles are
  \<open>round_binary 53 (-1022)\<close>, float32 values \<open>round_binary 24 (-126)\<close>; overflow to
  the infinities is added on \<open>jsnum\<close> in \<open>JsValues\<close>. The lemmas bound the rounding
  error (half a quantum, relatively \<open>2^-p\<close> in the normal range), show that integers
  below \<open>2^p\<close> bound the rounded value, bound a double rounding followed by a
  float32 rounding, and show that rounding is monotone.
\<close>

function log2_floor :: "rat \<Rightarrow> int" where
  "log2_floor x =
     (if x \<le> 0 then 0
      else if x < 1 then log2_floor (2 * x) - 1
      else if 2 \<le> x then log2_floor (x / 2) + 1
      else 0)"
  by auto

termination
  by (relation "measure (\<lambda>x. if 2 \<le> x then nat \<lfloor>x\<rfloor> else if 0 < x \<and> x < 1 then nat \<lceil>1 / x\<rceil> else 0)")
     (auto simp: log2_floor_measure_up log2_floor_measure_down)

declare log2_floor.simps [simp del]

lemma powi_two_succ: "(2::rat) powi (k + 1) = 2 * 2 powi k"
  by (simp add: power_int_add)

lemma log2_floor_bounds:
  "0 < x \<Longrightarrow> 2 powi log2_floor x \<le> x \<and> x < 2 powi (log2_floor x + 1)"
proof (induction x rule: log2_floor.induct)
  case (1 x)
  show ?case
  proof (cases "x < 1")
    case True
    let ?L = "log2_floor (2 * x)"
    have ih: "2 powi ?L \<le> 2 * x \<and> 2 * x < 2 powi (?L + 1)"
      using 1 True by simp
    have eq: "log2_floor x = ?L - 1" using 1 True by (subst log2_floor.simps) simp
    have "(2::rat) powi ?L = 2 * 2 powi (?L - 1)" using powi_two_succ [of "?L - 1"] by simp
    then show ?thesis using ih eq powi_two_succ [of ?L] by simp
  next
    case False
    show ?thesis
    proof (cases "2 \<le> x")
      case True
      let ?L = "log2_floor (x / 2)"
      have ih: "2 powi ?L \<le> x / 2 \<and> x / 2 < 2 powi (?L + 1)"
        using 1 False True by simp
      have eq: "log2_floor x = ?L + 1" using 1 True False by (subst log2_floor.simps) simp
      have "(2::rat) powi (?L + 1 + 1) = 2 * 2 powi (?L + 1)" by (rule powi_two_succ)
      then show ?thesis using ih eq powi_two_succ [of ?L] by simp
    next
      case False2: False
      have "log2_floor x = 0" using 1 False False2 by (subst log2_floor.simps) simp
      then show ?thesis using False False2 by simp
    qed
  qed
qed

lemma log2_floor_ge:
  assumes "0 < x" "2 powi k \<le> x"
  shows "k \<le> log2_floor x"
proof (rule ccontr)
  assume "\<not> k \<le> log2_floor x"
  then have "log2_floor x + 1 \<le> k" by simp
  then have "(2::rat) powi (log2_floor x + 1) \<le> 2 powi k" by (rule power_int_increasing) simp
  then show False using log2_floor_bounds [OF assms(1)] assms(2) by simp
qed

lemma log2_floor_le:
  assumes "0 < x" "x < 2 powi (k + 1)"
  shows "log2_floor x \<le> k"
proof (rule ccontr)
  assume "\<not> log2_floor x \<le> k"
  then have "k + 1 \<le> log2_floor x" by simp
  then have "(2::rat) powi (k + 1) \<le> 2 powi log2_floor x" by (rule power_int_increasing) simp
  then show False using log2_floor_bounds [OF assms(1)] assms(2) by simp
qed

definition round_even :: "rat \<Rightarrow> int" where
  "round_even m =
     (let f = \<lfloor>m\<rfloor>; d = m - of_int f
      in if d < 1 / 2 then f else if 1 / 2 < d then f + 1 else if even f then f else f + 1)"

definition quantum_exp :: "nat \<Rightarrow> int \<Rightarrow> rat \<Rightarrow> int" where
  "quantum_exp p emin x = max (log2_floor \<bar>x\<bar>) emin - int p + 1"

definition round_binary :: "nat \<Rightarrow> int \<Rightarrow> rat \<Rightarrow> rat" where
  "round_binary p emin x =
     (let k = quantum_exp p emin x in of_int (round_even (x / 2 powi k)) * 2 powi k)"

lemma round_even_error: "\<bar>of_int (round_even m) - m\<bar> \<le> 1 / 2"
  using floor_correct [of m] by (auto simp: round_even_def Let_def abs_le_iff)

lemma round_even_of_int [simp]: "round_even (of_int z) = z"
  by (simp add: round_even_def)

lemma round_even_le: "m \<le> of_int z \<Longrightarrow> round_even m \<le> z"
proof -
  assume a: "m \<le> of_int z"
  then have f: "\<lfloor>m\<rfloor> \<le> z" by (simp add: floor_le_iff)
  show ?thesis
  proof (cases "\<lfloor>m\<rfloor> = z")
    case True
    then have "m = of_int z" using a floor_correct [of m] by linarith
    then show ?thesis by simp
  next
    case False
    then show ?thesis using f by (auto simp: round_even_def Let_def)
  qed
qed

lemma round_even_nonneg: "0 \<le> m \<Longrightarrow> 0 \<le> round_even m"
  by (auto simp: round_even_def Let_def)

lemma powi_two_pos [simp]: "(0::rat) < 2 powi k"
  by simp

lemma abs_diff_scale: "0 < (c::rat) \<Longrightarrow> \<bar>a - x / c\<bar> * c = \<bar>a * c - x\<bar>"
proof -
  assume c: "0 < c"
  have "(a - x / c) * c = a * c - x" using c by (simp add: field_simps)
  then show ?thesis using c by (metis abs_mult abs_of_pos)
qed

lemma round_binary_error:
  "\<bar>round_binary p emin x - x\<bar> \<le> 2 powi quantum_exp p emin x / 2"
proof -
  let ?k = "quantum_exp p emin x"
  have "\<bar>of_int (round_even (x / 2 powi ?k)) - x / 2 powi ?k\<bar> \<le> 1 / 2" by (rule round_even_error)
  then have "\<bar>of_int (round_even (x / 2 powi ?k)) - x / 2 powi ?k\<bar> * 2 powi ?k \<le> 1 / 2 * 2 powi ?k"
    by (rule mult_right_mono) simp
  moreover have "\<bar>of_int (round_even (x / 2 powi ?k)) - x / 2 powi ?k\<bar> * 2 powi ?k =
      \<bar>of_int (round_even (x / 2 powi ?k)) * 2 powi ?k - x\<bar>"
    by (rule abs_diff_scale) simp
  ultimately show ?thesis by (simp add: round_binary_def Let_def)
qed

text \<open>In the normal range the error is at most half a unit in the last place, so
  relative to the value at most \<open>2^-p\<close>.\<close>

lemma round_binary_rel_error:
  assumes "x \<noteq> 0" "emin \<le> log2_floor \<bar>x\<bar>"
  shows "\<bar>round_binary p emin x - x\<bar> \<le> \<bar>x\<bar> / 2 ^ p"
proof -
  let ?e = "log2_floor \<bar>x\<bar>"
  have k: "quantum_exp p emin x = ?e - int p + 1" using assms(2) by (simp add: quantum_exp_def)
  have "(2::rat) powi (?e - int p + 1) / 2 = 2 powi ?e / 2 ^ p"
    by (simp add: power_int_add power_int_diff)
  also have "\<dots> \<le> \<bar>x\<bar> / 2 ^ p"
    using log2_floor_bounds [of "\<bar>x\<bar>"] assms(1) by (simp add: divide_right_mono)
  finally have "2 powi quantum_exp p emin x / 2 \<le> \<bar>x\<bar> / 2 ^ p" using k by simp
  then show ?thesis by (rule order_trans [OF round_binary_error])
qed

lemma round_binary_exact:
  "x / 2 powi quantum_exp p emin x = of_int z \<Longrightarrow> round_binary p emin x = x"
  by (simp add: round_binary_def Let_def) (metis nonzero_eq_divide_eq powi_two_pos less_irrefl)

lemma round_even_zero [simp]: "round_even 0 = 0"
  using round_even_of_int [of 0] by simp

lemma round_binary_zero [simp]: "round_binary p emin 0 = 0"
  by (simp add: round_binary_def Let_def)

text \<open>Below \<open>2^(E+1)\<close> in magnitude the quantum is at most that of exponent
  \<open>E\<close>, which bounds the absolute error.\<close>

lemma round_binary_error_below:
  assumes "\<bar>x\<bar> < 2 powi (E + 1)" "0 \<le> E"
  shows "\<bar>round_binary p emin x - x\<bar> \<le> 2 powi (max E emin - int p + 1) / 2"
proof (cases "x = 0")
  case True
  then show ?thesis by (simp add: round_binary_def Let_def)
next
  case False
  then have "log2_floor \<bar>x\<bar> \<le> E" using assms(1) by (intro log2_floor_le) simp_all
  then have "quantum_exp p emin x \<le> max E emin - int p + 1" by (simp add: quantum_exp_def)
  then have "(2::rat) powi quantum_exp p emin x \<le> 2 powi (max E emin - int p + 1)"
    by (rule power_int_increasing) simp
  then show ?thesis using round_binary_error [of p emin x] by simp
qed

lemma round_binary_bounded:
  assumes "0 \<le> x" "x \<le> of_nat N" "N < 2 ^ p" "emin < int p"
  shows "0 \<le> round_binary p emin x \<and> round_binary p emin x \<le> of_nat N"
proof (cases "x = 0")
  case True
  then show ?thesis by simp
next
  case False
  let ?k = "quantum_exp p emin x"
  have pos: "0 < x" using assms(1) False by simp
  have "x < 2 powi (int p - 1 + 1)"
  proof -
    have "(of_nat N :: rat) < of_nat (2 ^ p)" using assms(3) by (simp only: of_nat_less_iff)
    then have "(of_nat N :: rat) < 2 ^ p" by (simp only: of_nat_power of_nat_numeral)
    then have "x < 2 ^ p" using assms(2) by (rule le_less_trans [rotated])
    then show ?thesis by simp
  qed
  then have "log2_floor x \<le> int p - 1" using log2_floor_le [OF pos] by blast
  then have k: "?k \<le> 0" using assms(1,4) by (simp add: quantum_exp_def)
  have z: "of_int (2 ^ nat (- ?k)) = (2::rat) powi (- ?k)"
    using k by (simp add: power_int_def)
  have "x / 2 powi ?k \<le> of_nat N / 2 powi ?k" using assms(2) by (simp add: divide_right_mono)
  also have "\<dots> = of_int (int N * 2 ^ nat (- ?k))" using z by (simp add: power_int_minus_divide)
  finally have "round_even (x / 2 powi ?k) \<le> int N * 2 ^ nat (- ?k)" by (rule round_even_le)
  then have "of_int (round_even (x / 2 powi ?k)) * 2 powi ?k \<le> (of_int (int N * 2 ^ nat (- ?k)) :: rat) * 2 powi ?k"
    by (intro mult_right_mono) (simp only: of_int_le_iff, simp)
  also have "\<dots> = of_nat N" using z by (simp add: power_int_minus_divide)
  finally have le: "round_binary p emin x \<le> of_nat N" by (simp add: round_binary_def Let_def)
  have "0 \<le> round_even (x / 2 powi ?k)" using assms(1) by (intro round_even_nonneg) simp
  then have "0 \<le> round_binary p emin x" by (simp add: round_binary_def Let_def)
  with le show ?thesis by simp
qed

lemma round_binary_unit:
  assumes "0 \<le> x" "x \<le> 1" "1 \<le> p" "emin < int p"
  shows "0 \<le> round_binary p emin x \<and> round_binary p emin x \<le> 1"
proof -
  have "(2::nat) ^ 1 \<le> 2 ^ p" using assms(3) by (intro power_increasing) simp_all
  then have "(1::nat) < 2 ^ p" by simp
  then show ?thesis using round_binary_bounded [of x 1 p emin] assms by simp
qed

text \<open>A value of at least \<open>2^-9\<close> in (0, 1], rounded to a double and the double
  rounded to a float32, is within \<open>2^-23\<close> of the value, relative to it.\<close>

lemma double_single_rel_error:
  assumes "2 powi (-9) \<le> x" "x \<le> 1"
  shows "\<bar>round_binary 24 (-126) (round_binary 53 (-1022) x) - x\<bar> \<le> x / 2 ^ 23"
proof -
  let ?y = "round_binary 53 (-1022) x"
  have pos: "0 < x" using assms(1) by (meson le_less_trans not_le powi_two_pos)
  have ex: "-9 \<le> log2_floor x" using log2_floor_ge [OF pos assms(1)] .
  have ey: "\<bar>?y - x\<bar> \<le> x / 2 ^ 53"
    using round_binary_rel_error [of x "-1022" 53] pos ex by simp
  have x9: "1 / 512 \<le> x" using assms(1) by (simp add: power_int_minus_divide)
  have d1: "?y - x \<le> x / 9007199254740992" using abs_le_D1 [OF ey] by simp
  have d2: "x - ?y \<le> x / 9007199254740992" using abs_le_D2 [OF ey] by simp
  have ylow: "1 / 1024 \<le> ?y" using d2 x9 by linarith
  have ypos: "0 < ?y" using ylow by linarith
  have "2 powi (-10) \<le> ?y" using ylow by (simp add: power_int_minus_divide)
  then have ey2: "-10 \<le> log2_floor ?y" using log2_floor_ge [OF ypos] by simp
  have es: "\<bar>round_binary 24 (-126) ?y - ?y\<bar> \<le> ?y / 2 ^ 24"
    using round_binary_rel_error [of ?y "-126" 24] ypos ey2 by simp
  have s1: "round_binary 24 (-126) ?y - ?y \<le> ?y / 16777216" using abs_le_D1 [OF es] by simp
  have s2: "?y - round_binary 24 (-126) ?y \<le> ?y / 16777216" using abs_le_D2 [OF es] by simp
  have "round_binary 24 (-126) ?y - x \<le> x / 8388608" using s1 d1 pos by linarith
  moreover have "x - round_binary 24 (-126) ?y \<le> x / 8388608" using s2 d1 d2 pos by linarith
  ultimately have "\<bar>round_binary 24 (-126) ?y - x\<bar> \<le> x / 8388608" by (intro abs_leI) linarith+
  then show ?thesis by simp
qed

subsection \<open>Rounding picks the nearest multiple, the even one on a tie\<close>

lemma round_even_cases:
  "round_even m = \<lfloor>m\<rfloor> \<and> m - of_int \<lfloor>m\<rfloor> \<le> 1 / 2 \<or>
   round_even m = \<lfloor>m\<rfloor> + 1 \<and> 1 / 2 \<le> m - of_int \<lfloor>m\<rfloor>"
  by (auto simp: round_even_def Let_def)

lemma round_even_nearest: "\<bar>of_int (round_even m) - m\<bar> \<le> \<bar>of_int z - m\<bar>"
proof -
  have f: "of_int \<lfloor>m\<rfloor> \<le> m" "m < of_int \<lfloor>m\<rfloor> + 1" using floor_correct [of m] by simp_all
  consider "z \<le> \<lfloor>m\<rfloor>" | "\<lfloor>m\<rfloor> + 1 \<le> z" by linarith
  then have z: "m - of_int \<lfloor>m\<rfloor> \<le> \<bar>of_int z - m\<bar> \<or> of_int \<lfloor>m\<rfloor> + 1 - m \<le> \<bar>of_int z - m\<bar>"
  proof cases
    case 1
    then have "(of_int z :: rat) \<le> of_int \<lfloor>m\<rfloor>" by (simp only: of_int_le_iff)
    then show ?thesis by linarith
  next
    case 2
    then have "(of_int \<lfloor>m\<rfloor> :: rat) + 1 \<le> of_int z" by (metis of_int_add of_int_le_iff of_int_1)
    then show ?thesis by linarith
  qed
  show ?thesis using round_even_cases [of m] f z by auto
qed

lemma round_even_tie:
  assumes "\<bar>of_int z - m\<bar> = \<bar>of_int (round_even m) - m\<bar>" "z \<noteq> round_even m"
  shows "even (round_even m)"
proof -
  have f: "of_int \<lfloor>m\<rfloor> \<le> m" "m < of_int \<lfloor>m\<rfloor> + 1" using floor_correct [of m] by simp_all
  have "m - of_int \<lfloor>m\<rfloor> = 1 / 2"
  proof (rule ccontr)
    assume h: "m - of_int \<lfloor>m\<rfloor> \<noteq> 1 / 2"
    consider "z \<le> \<lfloor>m\<rfloor> - 1" | "z = \<lfloor>m\<rfloor>" | "z = \<lfloor>m\<rfloor> + 1" | "\<lfloor>m\<rfloor> + 2 \<le> z" by linarith
    then show False
    proof cases
      case 1
      then have "(of_int z :: rat) \<le> of_int \<lfloor>m\<rfloor> - 1" by (metis of_int_diff of_int_le_iff of_int_1)
      then show False using assms round_even_cases [of m] f by auto
    next
      case 2
      then show False using assms round_even_cases [of m] f h by auto
    next
      case 3
      then show False using assms round_even_cases [of m] f h by auto
    next
      case 4
      then have "(of_int \<lfloor>m\<rfloor> :: rat) + 2 \<le> of_int z" by (metis of_int_add of_int_le_iff of_int_numeral)
      then show False using assms round_even_cases [of m] f by auto
    qed
  qed
  then show ?thesis by (simp add: round_even_def Let_def)
qed

lemma round_binary_nearest_even:
  "\<exists>z0. round_binary p emin x = of_int z0 * 2 powi quantum_exp p emin x \<and>
      (\<forall>z. \<bar>round_binary p emin x - x\<bar> \<le> \<bar>of_int z * 2 powi quantum_exp p emin x - x\<bar>) \<and>
      (\<forall>z. \<bar>of_int z * 2 powi quantum_exp p emin x - x\<bar> = \<bar>round_binary p emin x - x\<bar> \<longrightarrow>
           z = z0 \<or> even z0)"
proof -
  let ?k = "quantum_exp p emin x"
  let ?z0 = "round_even (x / 2 powi ?k)"
  have r: "round_binary p emin x = of_int ?z0 * 2 powi ?k" by (simp add: round_binary_def Let_def)
  have sc: "\<And>z. \<bar>of_int z * 2 powi ?k - x\<bar> = \<bar>of_int z - x / 2 powi ?k\<bar> * 2 powi ?k"
    by (simp add: abs_diff_scale)
  have near: "\<forall>z. \<bar>round_binary p emin x - x\<bar> \<le> \<bar>of_int z * 2 powi ?k - x\<bar>"
    using round_even_nearest [of "x / 2 powi ?k"] by (simp add: r sc)
  have tie: "\<forall>z. \<bar>of_int z * 2 powi ?k - x\<bar> = \<bar>round_binary p emin x - x\<bar> \<longrightarrow> z = ?z0 \<or> even ?z0"
  proof (intro allI impI)
    fix z assume "\<bar>of_int z * 2 powi ?k - x\<bar> = \<bar>round_binary p emin x - x\<bar>"
    then have "\<bar>of_int z - x / 2 powi ?k\<bar> = \<bar>of_int ?z0 - x / 2 powi ?k\<bar>" by (simp add: r sc)
    then show "z = ?z0 \<or> even ?z0" using round_even_tie by blast
  qed
  show ?thesis using r near tie by blast
qed

subsection \<open>Monotonicity\<close>

text \<open>Rounding to nearest never reverses an order: ties to even is symmetric under
  negation, and between two exponents a value rounds at most to the power of two that
  bounds its binade, which the next binade's values round to at least.\<close>

lemma round_even_mono:
  assumes "m \<le> n"
  shows "round_even m \<le> round_even n"
proof (cases "\<lfloor>m\<rfloor> < \<lfloor>n\<rfloor>")
  case True
  have "round_even m \<le> \<lfloor>m\<rfloor> + 1" by (auto simp: round_even_def Let_def)
  moreover have "\<lfloor>n\<rfloor> \<le> round_even n" by (auto simp: round_even_def Let_def)
  ultimately show ?thesis using True by linarith
next
  case False
  then have f: "\<lfloor>m\<rfloor> = \<lfloor>n\<rfloor>" using assms floor_mono [OF assms] by linarith
  then have "m - of_int \<lfloor>m\<rfloor> \<le> n - of_int \<lfloor>n\<rfloor>" using assms by simp
  then show ?thesis using f by (auto simp: round_even_def Let_def)
qed

lemma round_even_uminus: "round_even (- m) = - round_even m"
proof (cases "m = of_int \<lfloor>m\<rfloor>")
  case True
  then show ?thesis by (metis of_int_minus round_even_of_int)
next
  case False
  then have fl: "\<lfloor>- m\<rfloor> = - \<lfloor>m\<rfloor> - 1"
    using floor_correct [of m] by (intro floor_unique) linarith+
  then have d: "- m - of_int \<lfloor>- m\<rfloor> = 1 - (m - of_int \<lfloor>m\<rfloor>)" by simp
  show ?thesis unfolding round_even_def Let_def d fl by auto
qed

lemma quantum_exp_uminus [simp]: "quantum_exp p emin (- x) = quantum_exp p emin x"
  by (simp add: quantum_exp_def)

lemma round_binary_uminus: "round_binary p emin (- x) = - round_binary p emin x"
  by (simp add: round_binary_def Let_def round_even_uminus)

lemma round_binary_sign: "0 \<le> x \<Longrightarrow> 0 \<le> round_binary p emin x"
  by (simp add: round_binary_def Let_def round_even_nonneg)

lemma log2_floor_mono:
  assumes "0 < x" "x \<le> y"
  shows "log2_floor x \<le> log2_floor y"
  using assms log2_floor_bounds [OF assms(1)] by (intro log2_floor_ge) simp_all

lemma round_even_ge: "of_int z \<le> m \<Longrightarrow> z \<le> round_even m"
  using round_even_le [of "- m" "- z"] by (simp add: round_even_uminus)

lemma powi_shift: "(2::rat) powi (k + int n) / 2 powi k = of_int (2 ^ n)"
  by (simp add: power_int_add)

lemma round_at_mono:
  assumes "x \<le> y"
  shows "of_int (round_even (x / 2 powi k)) * 2 powi k \<le> of_int (round_even (y / 2 powi k)) * (2::rat) powi k"
proof -
  have "x / 2 powi k \<le> y / 2 powi k" using assms by (simp add: divide_right_mono)
  then have "round_even (x / 2 powi k) \<le> round_even (y / 2 powi k)" by (rule round_even_mono)
  then show ?thesis by (intro mult_right_mono) simp_all
qed

lemma round_at_le_pow:
  assumes "x \<le> 2 powi (k + int n)"
  shows "of_int (round_even (x / 2 powi k)) * 2 powi k \<le> (2::rat) powi (k + int n)"
proof -
  have "x / 2 powi k \<le> of_int (2 ^ n)"
    using divide_right_mono [OF assms, of "2 powi k"] by (simp add: powi_shift)
  then have "round_even (x / 2 powi k) \<le> 2 ^ n" by (rule round_even_le)
  then have "of_int (round_even (x / 2 powi k)) * 2 powi k \<le> (of_int (2 ^ n) :: rat) * 2 powi k"
    by (intro mult_right_mono) (simp only: of_int_le_iff, simp)
  then show ?thesis by (simp add: power_int_add)
qed

lemma round_at_ge_pow:
  assumes "2 powi (k + int n) \<le> x"
  shows "(2::rat) powi (k + int n) \<le> of_int (round_even (x / 2 powi k)) * 2 powi k"
proof -
  have "of_int (2 ^ n) \<le> x / 2 powi k"
    using divide_right_mono [OF assms, of "2 powi k"] by (simp add: powi_shift)
  then have "2 ^ n \<le> round_even (x / 2 powi k)" by (rule round_even_ge)
  then have "(of_int (2 ^ n) :: rat) * 2 powi k \<le> of_int (round_even (x / 2 powi k)) * 2 powi k"
    by (intro mult_right_mono) (simp only: of_int_le_iff, simp)
  then show ?thesis by (simp add: power_int_add)
qed

lemma round_binary_mono_nonneg:
  assumes "1 \<le> p" "0 \<le> x" "x \<le> y"
  shows "round_binary p emin x \<le> round_binary p emin y"
proof (cases "x = 0")
  case True
  then show ?thesis using assms by (simp add: round_binary_sign)
next
  case False
  then have x0: "0 < x" and y0: "0 < y" using assms by simp_all
  define Ex where "Ex = max (log2_floor x) emin"
  define Ey where "Ey = max (log2_floor y) emin"
  have kx: "quantum_exp p emin x = Ex - int p + 1" using x0 by (simp add: quantum_exp_def Ex_def)
  have ky: "quantum_exp p emin y = Ey - int p + 1" using y0 by (simp add: quantum_exp_def Ey_def)
  have le: "Ex \<le> Ey" using log2_floor_mono [OF x0 assms(3)] by (simp add: Ex_def Ey_def)
  show ?thesis
  proof (cases "Ex = Ey")
    case True
    then show ?thesis using kx ky assms(3) by (simp add: round_binary_def Let_def round_at_mono)
  next
    case False
    then have Ey: "Ey = log2_floor y" "Ex + 1 \<le> Ey" using le by (auto simp: Ex_def Ey_def)
    have "x < 2 powi (log2_floor x + 1)" using log2_floor_bounds [OF x0] by simp
    also have "\<dots> \<le> 2 powi (Ex + 1)" by (rule power_int_increasing) (simp_all add: Ex_def)
    finally have "x \<le> 2 powi ((Ex - int p + 1) + int p)" by simp
    then have rx: "round_binary p emin x \<le> 2 powi (Ex + 1)"
      using round_at_le_pow [of x "Ex - int p + 1" p] kx by (simp add: round_binary_def Let_def)
    have "2 powi ((Ey - int p + 1) + int (p - 1)) \<le> y"
      using log2_floor_bounds [OF y0] Ey(1) assms(1) by (simp add: of_nat_diff)
    then have ry: "2 powi Ey \<le> round_binary p emin y"
      using round_at_ge_pow [of "Ey - int p + 1" "p - 1" y] ky assms(1)
      by (simp add: round_binary_def Let_def of_nat_diff)
    have "(2::rat) powi (Ex + 1) \<le> 2 powi Ey" using Ey(2) by (rule power_int_increasing) simp
    then show ?thesis using rx ry by linarith
  qed
qed

lemma round_binary_mono:
  assumes "1 \<le> p" "x \<le> y"
  shows "round_binary p emin x \<le> round_binary p emin y"
proof -
  consider "0 \<le> x" | "y \<le> 0" | "x < 0" "0 < y" by linarith
  then show ?thesis
  proof cases
    case 1
    show ?thesis by (rule round_binary_mono_nonneg [OF assms(1) 1 assms(2)])
  next
    case 2
    have "round_binary p emin (- y) \<le> round_binary p emin (- x)"
      using 2 assms by (intro round_binary_mono_nonneg) simp_all
    then show ?thesis by (simp add: round_binary_uminus)
  next
    case 3
    have "0 \<le> round_binary p emin (- x)" using 3 by (intro round_binary_sign) simp
    moreover have "0 \<le> round_binary p emin y" using 3 by (intro round_binary_sign) simp
    ultimately show ?thesis by (simp add: round_binary_uminus)
  qed
qed

end
