(* ===== verification/JsValues.thy ===== *)
theory JsValues
  imports Float
begin

text \<open>
  The JavaScript values and builtins that \<^verbatim>\<open>src/script.js\<close> relies on, after the
  ECMAScript specification: numbers (\<open>jsnum\<close>, with NaN and the infinities), reads of
  typed arrays and ordinary arrays (out of range: \<open>undefined\<close>), stores into a
  \<open>Float32Array\<close> (out of range: ignored), division and multiplication by a positive
  literal, \<open>Math.max\<close>, strict equality and \<open>indexOf\<close>, \<open>toFixed(2)\<close> and
  \<open>toUpperCase\<close> on ASCII strings. A finite number is a rational; division and
  multiplication round their exact result to the nearest double (\<open>to_f64\<close>, overflowing
  to the infinities) and a \<open>Float32Array\<close> store rounds to the nearest float32
  (\<open>to_f32\<close>), both with roundTiesToEven. \<open>+0\<close>/\<open>-0\<close> are one value, which no
  operation used by the script distinguishes (\<open>===\<close> and \<open>Math.max\<close> treat them as
  equal here). Both roundings are monotone, so they never reverse an order the
  script's comparisons see.
\<close>

datatype jsnum = Fin rat | PosInf | NegInf | NaN

text \<open>Exceptions the script can raise or receive: its own \<open>new Error(msg)\<close>, the
  \<open>TypeError\<close> of a property read or method call on \<open>undefined\<close>, and errors thrown or
  rejected by the onnxruntime library.\<close>

datatype js_error = Error string | TypeError | OrtError string

subsection \<open>Rounding to doubles and to float32\<close>

text \<open>The largest finite double and float32; a rounded result beyond them overflows to
  an infinity.\<close>

definition f64_max :: rat where
  "f64_max = (2 - 2 powi (-52)) * 2 ^ 1023"

definition f32_max :: rat where
  "f32_max = (2 - 2 powi (-23)) * 2 ^ 127"

definition to_f64 :: "rat \<Rightarrow> jsnum" where
  "to_f64 x =
     (let r = round_binary 53 (-1022) x
      in if f64_max < r then PosInf else if r < - f64_max then NegInf else Fin r)"

definition to_f32 :: "rat \<Rightarrow> jsnum" where
  "to_f32 x =
     (let r = round_binary 24 (-126) x
      in if f32_max < r then PosInf else if r < - f32_max then NegInf else Fin r)"

text \<open>The value a \<^verbatim>\<open>Float32Array\<close> holds after \<open>input[k] = v\<close>: NaN and the
  infinities are kept, a finite value is rounded to float32.\<close>

definition f32_store :: "jsnum \<Rightarrow> jsnum" where
  "f32_store v = (case v of Fin q \<Rightarrow> to_f32 q | _ \<Rightarrow> v)"

subsection \<open>Reads and stores\<close>

text \<open>\<open>data[i]\<close> on a \<open>Uint8ClampedArray\<close>, converted to a number: \<open>undefined\<close>
  (out of range) converts to NaN.\<close>

definition u8_read :: "byte list \<Rightarrow> nat \<Rightarrow> jsnum" where
  "u8_read data i = (if i < length data then Fin (of_nat (unat (data ! i))) else NaN)"

text \<open>\<open>input[k] = v\<close> on a \<open>Float32Array\<close>: an index out of range is ignored.\<close>

definition f32_set :: "jsnum list \<Rightarrow> nat \<Rightarrow> jsnum \<Rightarrow> jsnum list" where
  "f32_set xs k v = (if k < length xs then xs[k := f32_store v] else xs)"

text \<open>\<open>arr[i]\<close> on an ordinary array: \<open>undefined\<close> (here \<open>None\<close>) out of range,
  negative indices included.\<close>

definition js_array_get :: "'a list \<Rightarrow> int \<Rightarrow> 'a option" where
  "js_array_get xs i = (if 0 \<le> i \<and> nat i < length xs then Some (xs ! nat i) else None)"

subsection \<open>Arithmetic by positive literals\<close>

fun js_div_pos :: "jsnum \<Rightarrow> rat \<Rightarrow> jsnum" where
  "js_div_pos (Fin q) c = to_f64 (q / c)"
| "js_div_pos PosInf c = PosInf"
| "js_div_pos NegInf c = NegInf"
| "js_div_pos NaN c = NaN"

fun js_mul_pos :: "jsnum \<Rightarrow> rat \<Rightarrow> jsnum" where
  "js_mul_pos (Fin q) c = to_f64 (q * c)"
| "js_mul_pos PosInf c = PosInf"
| "js_mul_pos NegInf c = NegInf"
| "js_mul_pos NaN c = NaN"

text \<open>\<open>data[i] / 255\<close> stored into a \<^verbatim>\<open>Float32Array\<close>, for a byte \<open>b\<close>: the
  double nearest to \<open>b / 255\<close>, then the float32 nearest to that double.\<close>

definition byte_div255_f32 :: "byte \<Rightarrow> rat" where
  "byte_div255_f32 b = round_binary 24 (-126) (round_binary 53 (-1022) (of_nat (unat b) / 255))"

subsection \<open>Comparison, Math.max, indexOf\<close>

text \<open>\<open>x > y\<close> on numbers: false whenever NaN is involved.\<close>

fun js_gt :: "jsnum \<Rightarrow> jsnum \<Rightarrow> bool" where
  "js_gt (Fin a) (Fin b) = (b < a)"
| "js_gt (Fin a) NegInf = True"
| "js_gt PosInf (Fin b) = True"
| "js_gt PosInf NegInf = True"
| "js_gt x y = False"

text \<open>\<open>x === y\<close> on numbers.\<close>

fun js_strict_eq :: "jsnum \<Rightarrow> jsnum \<Rightarrow> bool" where
  "js_strict_eq NaN y = False"
| "js_strict_eq x y = (x = y)"

text \<open>\<open>Math.max(...xs)\<close>: start at \<open>-Infinity\<close>, return NaN at the first NaN, keep the
  larger value otherwise.\<close>

fun js_max_loop :: "jsnum \<Rightarrow> jsnum list \<Rightarrow> jsnum" where
  "js_max_loop highest [] = highest"
| "js_max_loop highest (x # xs) =
     (if x = NaN then NaN else js_max_loop (if js_gt x highest then x else highest) xs)"

definition js_math_max :: "jsnum list \<Rightarrow> jsnum" where
  "js_math_max xs = js_max_loop NegInf xs"

text \<open>\<open>xs.indexOf(x)\<close>: the first index holding a value strictly equal to \<open>x\<close>, or -1.\<close>

fun js_indexOf_from :: "jsnum list \<Rightarrow> jsnum \<Rightarrow> nat \<Rightarrow> int" where
  "js_indexOf_from [] x k = -1"
| "js_indexOf_from (y # ys) x k = (if js_strict_eq x y then int k else js_indexOf_from ys x (Suc k))"

definition js_indexOf :: "jsnum list \<Rightarrow> jsnum \<Rightarrow> int" where
  "js_indexOf xs x = js_indexOf_from xs x 0"

subsection \<open>Strings\<close>

definition js_upper_char :: "char \<Rightarrow> char" where
  "js_upper_char c =
     (let n = (of_char c :: nat) in if 97 \<le> n \<and> n \<le> 122 then char_of (n - 32) else c)"

definition js_toUpperCase :: "string \<Rightarrow> string" where
  "js_toUpperCase s = map js_upper_char s"

text \<open>Decimal digits of a natural number, most significant first.\<close>

fun nat_digits :: "nat \<Rightarrow> string" where
  "nat_digits n =
     (if n < 10 then [char_of (48 + n)] else nat_digits (n div 10) @ [char_of (48 + n mod 10)])"

declare nat_digits.simps [simp del]

text \<open>Step 9 of \<open>Number.prototype.toFixed\<close> with two fraction digits: the integer
  \<open>n\<close> (the value times 100, rounded) printed with at least three digits and a point
  before the last two.\<close>

definition fixed2_digits :: "nat \<Rightarrow> string" where
  "fixed2_digits n =
     (let m = nat_digits n;
          m' = (if length m \<le> 2 then replicate (3 - length m) (CHR ''0'') @ m else m);
          k = length m'
      in take (k - 2) m' @ ''.'' @ drop (k - 2) m')"

text \<open>\<open>Number::toString\<close> for values of at least \<open>10^21\<close> (exponent notation), read
  on the exact decimal digits of the value.\<close>

definition large_toString :: "rat \<Rightarrow> string" where
  "large_toString a =
     (let d = nat_digits (nat \<lfloor>a\<rfloor>);
          ds = rev (dropWhile (\<lambda>c. c = CHR ''0'') (rev d))
      in hd ds # (if length ds > 1 then ''.'' @ tl ds else []) @ ''e+'' @ nat_digits (length d - 1))"

definition js_toFixed2 :: "jsnum \<Rightarrow> string" where
  "js_toFixed2 x =
     (case x of
        NaN \<Rightarrow> ''NaN''
      | PosInf \<Rightarrow> ''Infinity''
      | NegInf \<Rightarrow> ''-Infinity''
      | Fin q \<Rightarrow>
          (let s = (if q < 0 then ''-'' else ''''); a = \<bar>q\<bar>
           in s @ (if 10 ^ 21 \<le> a then large_toString a
                   else fixed2_digits (nat \<lfloor>a * 100 + 1 / 2\<rfloor>))))"

text \<open>Reading back a printed decimal: the value of a digit string, and of an optionally
  signed string with a point, as a reader of the page interprets the percentages.\<close>

definition digits_value :: "string \<Rightarrow> nat" where
  "digits_value s = foldl (\<lambda>acc c. 10 * acc + (of_char c - 48)) 0 s"

definition parse_unsigned :: "string \<Rightarrow> rat" where
  "parse_unsigned s =
     of_nat (digits_value (takeWhile (\<lambda>c. c \<noteq> CHR ''.'') s)) +
     of_nat (digits_value (drop 1 (dropWhile (\<lambda>c. c \<noteq> CHR ''.'') s))) / 100"

definition parse_fixed :: "string \<Rightarrow> rat" where
  "parse_fixed s =
     (if s \<noteq> [] \<and> hd s = CHR ''-'' then - parse_unsigned (tl s) else parse_unsigned s)"

subsection \<open>Lemmas\<close>

lemma length_f32_set [simp]: "length (f32_set xs k v) = length xs"
  by (simp add: f32_set_def)

lemma nth_f32_set: "j < length xs \<Longrightarrow> f32_set xs k v ! j = (if j = k then f32_store v else xs ! j)"
  by (simp add: f32_set_def)

lemma u8_read_in_range [js_simps]:
  "i < length data \<Longrightarrow> u8_read data i = Fin (of_nat (unat (data ! i)))"
  by (simp add: u8_read_def)

lemma u8_read_out_of_range [js_simps]: "length data \<le> i \<Longrightarrow> u8_read data i = NaN"
  by (simp add: u8_read_def)

text \<open>A byte divided by 255 lies in [0, 1].\<close>

lemma div_255_bounds:
  assumes "n \<le> 255"
  shows "(0::rat) \<le> of_nat n / 255 \<and> (of_nat n :: rat) / 255 \<le> 1"
proof -
  have "(of_nat n :: rat) \<le> of_nat 255" using assms by (simp only: of_nat_le_iff)
  then have "(of_nat n :: rat) \<le> 255" by simp
  then show ?thesis by simp
qed

lemma unat_byte_le: "unat (b :: byte) \<le> 255"
  using unsigned_less [of b, where ?'a = nat] by simp


subsection \<open>Rounded arithmetic on small values\<close>

lemma to_f64_small:
  assumes "0 \<le> x" "x \<le> of_nat N" "N < 2 ^ 53"
  shows "to_f64 x = Fin (round_binary 53 (-1022) x)"
proof -
  have b: "0 \<le> round_binary 53 (-1022) x \<and> round_binary 53 (-1022) x \<le> of_nat N"
    using assms by (intro round_binary_bounded) simp_all
  have "(of_nat N :: rat) < of_nat (2 ^ 53)" using assms(3) by (simp only: of_nat_less_iff)
  then have "(of_nat N :: rat) \<le> f64_max" by (simp add: f64_max_def)
  then show ?thesis using b by (simp add: to_f64_def Let_def)
qed

lemma to_f32_small:
  assumes "0 \<le> x" "x \<le> of_nat N" "N < 2 ^ 24"
  shows "to_f32 x = Fin (round_binary 24 (-126) x)"
proof -
  have b: "0 \<le> round_binary 24 (-126) x \<and> round_binary 24 (-126) x \<le> of_nat N"
    using assms by (intro round_binary_bounded) simp_all
  have "(of_nat N :: rat) < of_nat (2 ^ 24)" using assms(3) by (simp only: of_nat_less_iff)
  then have "(of_nat N :: rat) \<le> f32_max" by (simp add: f32_max_def)
  then show ?thesis using b by (simp add: to_f32_def Let_def)
qed

lemma store_byte_div255:
  "f32_store (js_div_pos (Fin (of_nat (unat b))) 255) = Fin (byte_div255_f32 b)"
proof -
  let ?x = "(of_nat (unat b) :: rat) / 255"
  have x: "0 \<le> ?x \<and> ?x \<le> 1" by (rule div_255_bounds [OF unat_byte_le])
  have y: "0 \<le> round_binary 53 (-1022) ?x \<and> round_binary 53 (-1022) ?x \<le> 1"
    using x by (intro round_binary_unit) simp_all
  have "to_f64 ?x = Fin (round_binary 53 (-1022) ?x)" using x by (intro to_f64_small [of _ 1]) simp_all
  moreover have "to_f32 (round_binary 53 (-1022) ?x) = Fin (byte_div255_f32 b)"
    using y unfolding byte_div255_f32_def by (intro to_f32_small [of _ 1]) simp_all
  ultimately show ?thesis by (simp add: f32_store_def)
qed

lemma byte_div255_f32_bounds: "0 \<le> byte_div255_f32 b \<and> byte_div255_f32 b \<le> 1"
proof -
  let ?x = "(of_nat (unat b) :: rat) / 255"
  have x: "0 \<le> ?x \<and> ?x \<le> 1" by (rule div_255_bounds [OF unat_byte_le])
  have "0 \<le> round_binary 53 (-1022) ?x \<and> round_binary 53 (-1022) ?x \<le> 1"
    using x by (intro round_binary_unit) simp_all
  then show ?thesis unfolding byte_div255_f32_def by (intro round_binary_unit) simp_all
qed

lemma byte_div255_f32_0 [simp]: "byte_div255_f32 0 = 0"
  by (simp add: byte_div255_f32_def)

lemma byte_div255_f32_255 [simp]: "byte_div255_f32 255 = 1"
  by code_simp

text \<open>The stored value is within \<open>2^-23\<close> of \<open>b / 255\<close>, relative to it.\<close>

lemma byte_div255_f32_error:
  "\<bar>byte_div255_f32 b - of_nat (unat b) / 255\<bar> \<le> of_nat (unat b) / 255 / 2 ^ 23"
proof (cases "unat b = 0")
  case True
  then show ?thesis by (simp add: byte_div255_f32_def)
next
  case False
  let ?x = "(of_nat (unat b) :: rat) / 255"
  have n: "1 \<le> unat b" "unat b \<le> 255" using False unat_byte_le [of b] by simp_all
  have "(1::rat) \<le> of_nat (unat b)" using n(1) by (metis of_nat_1 of_nat_le_iff)
  then have "2 powi (-9) \<le> ?x" by (simp add: power_int_minus_divide)
  moreover have "?x \<le> 1" using div_255_bounds [OF n(2)] by simp
  ultimately show ?thesis
    unfolding byte_div255_f32_def by (rule double_single_rel_error)
qed

text \<open>Multiplying the stored value back by 255 misses the byte by less than \<open>1/2\<close>, so
  rounding recovers it.\<close>

lemma byte_div255_f32_recover: "\<lfloor>byte_div255_f32 b * 255 + 1 / 2\<rfloor> = int (unat b)"
proof -
  let ?n = "unat b"
  have e: "\<bar>byte_div255_f32 b - of_nat ?n / 255\<bar> \<le> of_nat ?n / 255 / 2 ^ 23"
    by (rule byte_div255_f32_error)
  have "(of_nat ?n :: rat) \<le> 255" using unat_byte_le [of b] by (simp del: of_nat_unat)
  then have "\<bar>byte_div255_f32 b * 255 - of_nat ?n\<bar> < 1 / 2"
    using e by (simp add: abs_le_iff abs_less_iff field_simps)
  then have c: "byte_div255_f32 b * 255 - of_nat ?n < 1 / 2 \<and> - (byte_div255_f32 b * 255 - of_nat ?n) < 1 / 2"
    by (simp only: abs_less_iff)
  then have "of_int (int ?n) \<le> byte_div255_f32 b * 255 + 1 / 2"
    and "byte_div255_f32 b * 255 + 1 / 2 < of_int (int ?n) + 1"
    using c by (simp_all only: of_int_of_nat_eq) linarith+
  then show ?thesis by (rule floor_unique)
qed


subsection \<open>Doubles are rounded to nearest, ties to even\<close>

lemma to_f64_Fin: "to_f64 x = Fin r \<Longrightarrow> r = round_binary 53 (-1022) x"
  by (auto simp: to_f64_def Let_def split: if_splits)

text \<open>The double arithmetic of the model is IEEE roundTiesToEven: when
  \<open>data[i] / 255\<close> or \<open>prob * 100\<close> yields the finite double \<open>r\<close> for the exact
  value \<open>x\<close>, \<open>r\<close> is a multiple of the quantum at \<open>x\<close>'s exponent, no multiple is
  nearer to \<open>x\<close>, and an equally near other multiple means \<open>r\<close>'s is even.\<close>

lemma to_f64_nearest_even:
  assumes "to_f64 x = Fin r"
  shows "\<exists>z0. r = of_int z0 * 2 powi quantum_exp 53 (-1022) x \<and>
           (\<forall>z. \<bar>r - x\<bar> \<le> \<bar>of_int z * 2 powi quantum_exp 53 (-1022) x - x\<bar>) \<and>
           (\<forall>z. \<bar>of_int z * 2 powi quantum_exp 53 (-1022) x - x\<bar> = \<bar>r - x\<bar> \<longrightarrow> z = z0 \<or> even z0)"
  using round_binary_nearest_even [of 53 "-1022" x] to_f64_Fin [OF assms] by simp

lemma overflow_order:
  assumes "(a::rat) \<le> b"
  shows "\<not> js_gt (if M < a then PosInf else if a < - M then NegInf else Fin a)
                   (if M < b then PosInf else if b < - M then NegInf else Fin b)"
  using assms by auto

text \<open>Rounding never reverses an order: for exact values \<open>x \<le> y\<close>, neither the
  double nor the float32 rounding of \<open>x\<close> compares greater (with the script's
  \<open>>\<close>) than that of \<open>y\<close>, overflow to the infinities included. So the model's
  order of probabilities survives \<^verbatim>\<open>prob * 100\<close> and a \<^verbatim>\<open>Float32Array\<close> store.\<close>

lemma rounding_preserves_order:
  assumes "x \<le> y"
  shows "\<not> js_gt (to_f64 x) (to_f64 y) \<and> \<not> js_gt (to_f32 x) (to_f32 y)"
proof
  show "\<not> js_gt (to_f64 x) (to_f64 y)"
    using overflow_order [OF round_binary_mono [of 53 x y "-1022"]] assms
    by (simp add: to_f64_def Let_def)
  show "\<not> js_gt (to_f32 x) (to_f32 y)"
    using overflow_order [OF round_binary_mono [of 24 x y "-126"]] assms
    by (simp add: to_f32_def Let_def)
qed

subsection \<open>Printing with two decimals\<close>

lemma of_char_digit: "k < 10 \<Longrightarrow> of_char (char_of (48 + k)) = (48 + k :: nat)"
  by (simp add: of_char_of take_bit_eq_mod)

lemma nat_digits_small: "n < 10 \<Longrightarrow> nat_digits n = [char_of (48 + n)]"
  by (simp add: nat_digits.simps)

lemma nat_digits_big: "10 \<le> n \<Longrightarrow> nat_digits n = nat_digits (n div 10) @ [char_of (48 + n mod 10)]"
  by (subst nat_digits.simps) simp

lemma digits_value_append: "digits_value (xs @ ys) = foldl (\<lambda>acc c. 10 * acc + (of_char c - 48)) (digits_value xs) ys"
  by (simp add: digits_value_def)

lemma digits_value_nat_digits: "digits_value (nat_digits n) = n"
proof (induction n rule: nat_digits.induct)
  case (1 n)
  show ?case
  proof (cases "n < 10")
    case True
    then show ?thesis by (simp add: nat_digits_small digits_value_def of_char_digit)
  next
    case False
    then have "digits_value (nat_digits (n div 10)) = n div 10" using "1.IH" by simp
    with False show ?thesis
      by (simp add: nat_digits_big digits_value_append of_char_digit)
  qed
qed

text \<open>Every character \<open>nat_digits\<close> prints is a decimal digit, code 48 to 57.\<close>

lemma nat_digits_of_char:
  "c \<in> set (nat_digits n) \<Longrightarrow> 48 \<le> (of_char c :: nat) \<and> (of_char c :: nat) \<le> 57"
proof (induction n rule: nat_digits.induct)
  case (1 n)
  show ?case
  proof (cases "n < 10")
    case True
    then show ?thesis using 1 of_char_digit [of n] by (simp add: nat_digits_small)
  next
    case False
    then show ?thesis using 1 of_char_digit [of "n mod 10"] by (auto simp: nat_digits_big)
  qed
qed

lemma not_in_nat_digits:
  "(of_char c :: nat) < 48 \<or> 57 < (of_char c :: nat) \<Longrightarrow> c \<notin> set (nat_digits n)"
  using nat_digits_of_char by fastforce

lemma nat_digits_no_point: "CHR ''.'' \<notin> set (nat_digits n)"
  by (rule not_in_nat_digits) simp

lemma nat_digits_ne: "nat_digits n \<noteq> []"
  by (subst nat_digits.simps) simp

lemma char_of_48: "char_of (48::nat) = CHR ''0''"
  using char_of_char [of "CHR ''0''"] by simp

lemma fixed2_digits_eq:
  "fixed2_digits n = nat_digits (n div 100) @ ''.'' @ [char_of (48 + n div 10 mod 10), char_of (48 + n mod 10)]"
proof (cases "n < 100")
  case False
  have "nat_digits n = nat_digits (n div 100) @ [char_of (48 + n div 10 mod 10), char_of (48 + n mod 10)]"
  proof -
    have "n div 10 div 10 = n div 100" using div_mult2_eq [of n 10 10] by simp
    moreover have "10 \<le> n div 10" using False by simp
    ultimately show ?thesis using False by (simp add: nat_digits_big [of n] nat_digits_big [of "n div 10"])
  qed
  then show ?thesis by (simp add: fixed2_digits_def Let_def nat_digits_ne)
next
  case True
  show ?thesis
  proof (cases "n < 10")
    case True
    then show ?thesis by (simp add: fixed2_digits_def nat_digits_small numeral_3_eq_3 char_of_48)
  next
    case False
    with \<open>n < 100\<close> have "nat_digits n = [char_of (48 + n div 10), char_of (48 + n mod 10)]"
      by (simp add: nat_digits_big nat_digits_small)
    with False \<open>n < 100\<close> show ?thesis
      by (simp add: fixed2_digits_def nat_digits_small numeral_2_eq_2 char_of_48)
  qed
qed

lemma nat_digits_hd_not_minus: "hd (nat_digits n) \<noteq> CHR ''-''"
proof -
  have "hd (nat_digits n) \<in> set (nat_digits n)" using nat_digits_ne [of n] by simp
  moreover have "CHR ''-'' \<notin> set (nat_digits n)" by (rule not_in_nat_digits) simp
  ultimately show ?thesis by auto
qed

lemma parse_unsigned_fixed2: "parse_unsigned (fixed2_digits n) = of_nat n / 100"
proof -
  have np: "\<And>c. c \<in> set (nat_digits (n div 100)) \<Longrightarrow> c \<noteq> CHR ''.''"
    using nat_digits_no_point [of "n div 100"] by blast
  have tw: "takeWhile (\<lambda>c. c \<noteq> CHR ''.'') (fixed2_digits n) = nat_digits (n div 100)"
    using np by (simp add: fixed2_digits_eq takeWhile_append2)
  have dw: "drop 1 (dropWhile (\<lambda>c. c \<noteq> CHR ''.'') (fixed2_digits n)) =
      [char_of (48 + n div 10 mod 10), char_of (48 + n mod 10)]"
    using np by (simp add: fixed2_digits_eq dropWhile_append2)
  have v: "digits_value [char_of (48 + n div 10 mod 10), char_of (48 + n mod 10)] = n mod 100"
  proof -
    have "n mod (10 * 10) = 10 * (n div 10 mod 10) + n mod 10" by (rule mod_mult2_eq)
    then show ?thesis by (simp add: digits_value_def of_char_digit)
  qed
  have "n = n div 100 * 100 + n mod 100" by simp
  then have "(of_nat n :: rat) = of_nat (n div 100) * 100 + of_nat (n mod 100)"
    by (metis of_nat_add of_nat_mult of_nat_numeral)
  then show ?thesis
    unfolding parse_unsigned_def tw dw v by (simp add: digits_value_nat_digits field_simps)
qed

lemma fixed2_digits_hd: "fixed2_digits n \<noteq> [] \<and> hd (fixed2_digits n) \<noteq> CHR ''-''"
  using nat_digits_hd_not_minus [of "n div 100"] nat_digits_ne [of "n div 100"]
  by (simp add: fixed2_digits_eq)

lemma round_half_error: "\<bar>of_int \<lfloor>x + 1 / 2\<rfloor> - (x :: rat)\<bar> \<le> 1 / 2"
proof -
  have "of_int \<lfloor>x + 1 / 2\<rfloor> \<le> x + 1 / 2" and "x + 1 / 2 < of_int \<lfloor>x + 1 / 2\<rfloor> + 1"
    using floor_correct [of "x + 1 / 2"] by simp_all
  then show ?thesis unfolding abs_le_iff by linarith
qed

lemma toFixed2_parse:
  assumes "\<bar>q\<bar> < 10 ^ 21"
  shows "parse_fixed (js_toFixed2 (Fin q)) =
           (if q < 0 then - (of_int \<lfloor>\<bar>q\<bar> * 100 + 1 / 2\<rfloor> / 100)
            else of_int \<lfloor>\<bar>q\<bar> * 100 + 1 / 2\<rfloor> / 100)"
proof -
  let ?n = "nat \<lfloor>\<bar>q\<bar> * 100 + 1 / 2\<rfloor>"
  have nn: "0 \<le> \<lfloor>\<bar>q\<bar> * 100 + 1 / 2\<rfloor>" by simp
  then have eq: "(of_nat ?n :: rat) = of_int \<lfloor>\<bar>q\<bar> * 100 + 1 / 2\<rfloor>" by simp
  obtain c cs where fd: "fixed2_digits ?n = c # cs" and c: "c \<noteq> CHR ''-''"
    using fixed2_digits_hd [of ?n] by (cases "fixed2_digits ?n") auto
  have un: "parse_unsigned (fixed2_digits ?n) = of_int \<lfloor>\<bar>q\<bar> * 100 + 1 / 2\<rfloor> / 100"
    using parse_unsigned_fixed2 [of ?n] eq by simp
  have "js_toFixed2 (Fin q) = (if q < 0 then ''-'' else []) @ fixed2_digits ?n"
    using assms by (simp add: js_toFixed2_def Let_def)
  then show ?thesis
    using un fd c by (cases "q < 0") (simp_all add: parse_fixed_def)
qed

lemma round_hundredths_error: "\<bar>of_int \<lfloor>x * 100 + 1 / 2\<rfloor> / 100 - (x :: rat)\<bar> \<le> 1 / 200"
proof -
  have "\<bar>of_int \<lfloor>x * 100 + 1 / 2\<rfloor> - x * 100\<bar> \<le> 1 / 2"
    by (rule round_half_error)
  then show ?thesis by (simp add: abs_le_iff field_simps)
qed

subsection \<open>The characters toFixed(2) prints\<close>

lemma digits_value_zeros: "(\<forall>c\<in>set s. c = CHR ''0'') \<Longrightarrow> digits_value s = 0"
proof (induction s)
  case Nil
  then show ?case by (simp add: digits_value_def)
next
  case (Cons c s)
  then show ?case by (simp add: digits_value_def)
qed

lemma significant_digits_ne:
  assumes "1 \<le> n"
  shows "rev (dropWhile (\<lambda>c. c = CHR ''0'') (rev (nat_digits n))) \<noteq> []"
proof
  assume "rev (dropWhile (\<lambda>c. c = CHR ''0'') (rev (nat_digits n))) = []"
  then have "\<forall>c\<in>set (nat_digits n). c = CHR ''0''" by (simp add: dropWhile_eq_Nil_conv)
  then have "digits_value (nat_digits n) = 0" by (rule digits_value_zeros)
  then show False using assms digits_value_nat_digits [of n] by simp
qed

lemma large_toString_chars:
  assumes "10 ^ 21 \<le> a" "c \<in> set (large_toString a)"
  shows "c \<in> set (nat_digits (nat \<lfloor>a\<rfloor>)) \<or> c \<in> set (nat_digits (length (nat_digits (nat \<lfloor>a\<rfloor>)) - 1)) \<or>
         c \<in> set ''.e+''"
proof -
  let ?d = "nat_digits (nat \<lfloor>a\<rfloor>)"
  let ?ds = "rev (dropWhile (\<lambda>c. c = CHR ''0'') (rev ?d))"
  have "1 \<le> nat \<lfloor>a\<rfloor>" using assms(1) by (simp add: le_nat_iff le_floor_iff)
  then have ne: "?ds \<noteq> []" by (rule significant_digits_ne)
  have sub: "set ?ds \<subseteq> set ?d" using set_dropWhileD by fastforce
  have "hd ?ds \<in> set ?d" using ne sub hd_in_set by blast
  moreover have "set (tl ?ds) \<subseteq> set ?d" using sub list.set_sel(2) [of ?ds] ne by blast
  ultimately show ?thesis using assms(2) by (auto simp: large_toString_def Let_def split: if_splits)
qed

lemma toFixed2_chars:
  assumes "(of_char c :: nat) < 48 \<or> 57 < (of_char c :: nat)" "c \<notin> set ''.-+eNaIfinty''"
  shows "c \<notin> set (js_toFixed2 x)"
proof
  assume c: "c \<in> set (js_toFixed2 x)"
  have nd: "\<And>n. c \<notin> set (nat_digits n)" using assms(1) by (rule not_in_nat_digits)
  have dg: "\<And>k::nat. k < 10 \<Longrightarrow> c \<noteq> char_of (48 + k)"
    using assms(1) of_char_digit by fastforce
  show False
  proof (cases x)
    case (Fin q)
    show False
    proof (cases "10 ^ 21 \<le> \<bar>q\<bar>")
      case True
      then show False using c Fin nd assms(2) large_toString_chars [OF True, of c]
        by (auto simp: js_toFixed2_def Let_def split: if_splits)
    next
      case False
      then show False using c Fin nd dg assms(2)
        by (auto simp: js_toFixed2_def Let_def fixed2_digits_eq split: if_splits)
    qed
  qed (use c assms(2) in \<open>auto simp: js_toFixed2_def\<close>)
qed

text \<open>\<open>toFixed(2)\<close> round trip: for a finite number of magnitude below \<open>10^21\<close>,
  reading back the printed string gives the value rounded half-up to two decimals with the
  sign kept, and that rounding is within 1/200 of the value.\<close>

lemma toFixed2_roundtrip:
  assumes "\<bar>q\<bar> < 10 ^ 21"
  shows "parse_fixed (js_toFixed2 (Fin q)) =
           (if q < 0 then - (of_int \<lfloor>\<bar>q\<bar> * 100 + 1 / 2\<rfloor> / 100)
            else of_int \<lfloor>\<bar>q\<bar> * 100 + 1 / 2\<rfloor> / 100)
         \<and> \<bar>of_int \<lfloor>\<bar>q\<bar> * 100 + 1 / 2\<rfloor> / 100 - \<bar>q\<bar>\<bar> \<le> 1 / 200"
  using toFixed2_parse [OF assms] round_hundredths_error [of "\<bar>q\<bar>"] by simp

end
