(* ===== verification/Ort.thy ===== *)
theory Ort
  imports JsValues
begin

text \<open>
  The interface of the onnxruntime-web library (\<^verbatim>\<open>ort\<close>) as the script uses it: a
  tensor (\<^verbatim>\<open>new ort.Tensor(type, data, dims)\<close>), an inference session with its
  declared input and output names and its asynchronous \<^verbatim>\<open>run\<close>, and the
  single-entry feeds object \<^verbatim>\<open>{[model.inputNames[0]]: tensor}\<close>. The session's
  \<open>run\<close> is a field of the record: every lemma about the script holds for any session,
  which is what "the model is an external collaborator" means here.
\<close>

record tensor =
  ttype :: string
  tdata :: "jsnum list"
  tdims :: "nat list"

text \<open>A JavaScript object from names to tensors, in insertion order.\<close>

type_synonym tensor_map = "(string \<times> tensor) list"

record session =
  inputNames :: "string list"
  outputNames :: "string list"
  run :: "tensor_map \<Rightarrow> string + tensor_map"

text \<open>\<open>new ort.Tensor(type, data, dims)\<close>: the constructor checks that the data has as
  many elements as the dimensions ask for.\<close>

definition ort_Tensor :: "string \<Rightarrow> jsnum list \<Rightarrow> nat list \<Rightarrow> js_error + tensor" where
  "ort_Tensor ty d dims =
     (if length d = prod_list dims then Inr \<lparr>ttype = ty, tdata = d, tdims = dims\<rparr>
      else Inl (OrtError ''Tensor's size does not match data length''))"

text \<open>\<open>names[0]\<close> used as a property key: \<open>undefined\<close> becomes the key
  \<open>"undefined"\<close>.\<close>

definition first_name_key :: "string list \<Rightarrow> string" where
  "first_name_key names = (case names of [] \<Rightarrow> ''undefined'' | n # _ \<Rightarrow> n)"

text \<open>\<open>obj[key]\<close> on an object of tensors: \<open>undefined\<close> when the key is absent.\<close>

definition obj_get :: "tensor_map \<Rightarrow> string \<Rightarrow> tensor option" where
  "obj_get m k = map_of m k"

end
