(* ===== verification/Preprocess.thy ===== *)
theory Preprocess
  imports Ort
begin

text \<open>
  \<^verbatim>\<open>preprocessImage\<close> (src/script.js, lines 25--49). The image is drawn onto a
  177\<times>177 canvas and read back with \<^verbatim>\<open>getImageData\<close>; the browser's resampling is
  not modelled, so the model starts from \<open>data\<close>, the RGBA bytes that
  \<^verbatim>\<open>getImageData(0, 0, 177, 177)\<close> returns (row by row, four bytes per pixel).
  The loop of lines 39--46 is \<open>preprocess_loop\<close>, with the canvas side \<open>w\<close> as a
  parameter (the script's literal 177) and the \<^verbatim>\<open>Float32Array\<close> as a list of
  numbers, each store rounding to float32; \<open>planar_tensor\<close> is the channel-planar
  layout the spec asks for, and the loop is proved to compute it.
\<close>

subsection \<open>The loop and the function\<close>

text \<open>One iteration per pixel: \<open>i\<close> runs over \<open>0, 4, 8, \<dots>\<close> while
  \<open>i < data.length\<close>; \<open>i / 4\<close> is exact because \<open>i\<close> is a multiple of 4.\<close>

function preprocess_loop :: "nat \<Rightarrow> byte list \<Rightarrow> nat \<Rightarrow> jsnum list \<Rightarrow> jsnum list" where
  "preprocess_loop w data i input =
     (if i < length data then
        (let pixelIndex = i div 4;
             rowIndex = pixelIndex mod w;
             colIndex = pixelIndex div w;
             input1 = f32_set input (rowIndex + w * colIndex)
                        (js_div_pos (u8_read data i) 255);
             input2 = f32_set input1 (rowIndex + w * colIndex + w * w)
                        (js_div_pos (u8_read data (i + 1)) 255);
             input3 = f32_set input2 (rowIndex + w * colIndex + 2 * w * w)
                        (js_div_pos (u8_read data (i + 2)) 255)
         in preprocess_loop w data (i + 4) input3)
      else input)"
  by pat_completeness auto
termination
  by (relation "measure (\<lambda>(w, data, i, input). length data - i)") auto

declare preprocess_loop.simps [simp del]

definition preprocessImage :: "byte list \<Rightarrow> js_error + tensor" where
  "preprocessImage data =
     ort_Tensor ''float32''
       (preprocess_loop 177 data 0 (replicate (3 * 177 * 177) (Fin 0))) [1, 3, 177, 177]"

subsection \<open>The channel-planar layout\<close>

text \<open>Channel \<open>c\<close> of pixel \<open>p\<close>, normalised as the script does: the double
  \<open>data[4 * p + c] / 255\<close>, and the value the \<^verbatim>\<open>Float32Array\<close> holds once it is
  stored.\<close>

definition channel_raw :: "byte list \<Rightarrow> nat \<Rightarrow> nat \<Rightarrow> jsnum" where
  "channel_raw data c p = js_div_pos (u8_read data (4 * p + c)) 255"

definition channel_value :: "byte list \<Rightarrow> nat \<Rightarrow> nat \<Rightarrow> jsnum" where
  "channel_value data c p = f32_store (channel_raw data c p)"

text \<open>The reference layout of the spec: all red values, then all green, then all blue,
  each plane in pixel order.\<close>

definition planar_tensor :: "nat \<Rightarrow> byte list \<Rightarrow> jsnum list" where
  "planar_tensor n data = concat (map (\<lambda>c. map (channel_value data c) [0..<n]) [0, 1, 2])"

text \<open>The buffer after the first \<open>k\<close> pixels have been stored, the rest still \<open>z\<close>.\<close>

definition partial_planar :: "nat \<Rightarrow> byte list \<Rightarrow> nat \<Rightarrow> jsnum \<Rightarrow> jsnum list" where
  "partial_planar n data k z =
     map (\<lambda>j. if j mod n < k then channel_value data (j div n) (j mod n) else z) [0..<3 * n]"

text \<open>The inverse of the normalisation, rounding to the nearest integer, and the
  colour bytes of the canvas de-interleaved into planes: the two sides of the round
  trip.\<close>

definition denormalise :: "jsnum \<Rightarrow> byte option" where
  "denormalise v = (case v of Fin q \<Rightarrow> Some (word_of_nat (nat \<lfloor>q * 255 + 1 / 2\<rfloor>)) | _ \<Rightarrow> None)"

definition rgb_planes :: "nat \<Rightarrow> byte list \<Rightarrow> byte list" where
  "rgb_planes n data = concat (map (\<lambda>c. map (\<lambda>p. data ! (4 * p + c)) [0..<n]) [0, 1, 2])"

subsection \<open>The loop computes the planar layout\<close>

lemma length_preprocess_loop: "length (preprocess_loop w data i input) = length input"
proof (induction w data i input rule: preprocess_loop.induct)
  case (1 w data i input)
  then show ?case
    by (subst preprocess_loop.simps) (simp add: Let_def)
qed

lemma length_partial_planar [simp]: "length (partial_planar n data k z) = 3 * n"
  by (simp add: partial_planar_def)

lemma block_index:
  assumes "k < (n::nat)"
  shows "j = c * n + k \<longleftrightarrow> j mod n = k \<and> j div n = c"
proof
  assume "j = c * n + k"
  with assms show "j mod n = k \<and> j div n = c" by simp
next
  assume "j mod n = k \<and> j div n = c"
  then show "j = c * n + k" by (metis div_mult_mod_eq)
qed

lemma partial_planar_step:
  assumes "k < n"
  shows "f32_set (f32_set (f32_set (partial_planar n data k z) k (channel_raw data 0 k))
            (k + n) (channel_raw data 1 k)) (k + 2 * n) (channel_raw data 2 k)
         = partial_planar n data (Suc k) z"
proof (rule nth_equalityI)
  fix j assume j: "j < length (f32_set (f32_set (f32_set (partial_planar n data k z) k (channel_raw data 0 k))
            (k + n) (channel_raw data 1 k)) (k + 2 * n) (channel_raw data 2 k))"
  then have j3: "j < 3 * n" by simp
  have i0: "j = k \<longleftrightarrow> j mod n = k \<and> j div n = 0"
    using block_index [OF assms, of j 0] by simp
  have i1: "j = k + n \<longleftrightarrow> j mod n = k \<and> j div n = 1"
    using block_index [OF assms, of j 1] by (simp add: add.commute)
  have i2: "j = k + 2 * n \<longleftrightarrow> j mod n = k \<and> j div n = 2"
    using block_index [OF assms, of j 2] by (simp add: add.commute)
  have d3: "j div n < 3" using j3 by (simp add: div_less_iff_less_mult mult.commute)
  show "f32_set (f32_set (f32_set (partial_planar n data k z) k (channel_raw data 0 k))
            (k + n) (channel_raw data 1 k)) (k + 2 * n) (channel_raw data 2 k) ! j
        = partial_planar n data (Suc k) z ! j"
    using j3 d3 i0 i1 i2 by (auto simp: nth_f32_set partial_planar_def less_Suc_eq channel_value_def)
qed simp

lemma preprocess_loop_unfold:
  assumes "k < w * w" "length data = 4 * (w * w)"
  shows "preprocess_loop w data (4 * k) input =
         preprocess_loop w data (4 * Suc k)
           (f32_set (f32_set (f32_set input k (channel_raw data 0 k))
              (k + w * w) (channel_raw data 1 k)) (k + 2 * (w * w)) (channel_raw data 2 k))"
proof -
  have lt: "4 * k < length data" using assms by simp
  have ix: "4 * k div 4 mod w + w * (4 * k div 4 div w) = k" by simp
  show ?thesis
    by (subst preprocess_loop.simps) (simp add: lt ix Let_def channel_raw_def mult.assoc add.commute)
qed

lemma preprocess_loop_partial:
  assumes "length data = 4 * (w * w)" "k \<le> w * w"
  shows "preprocess_loop w data (4 * k) (partial_planar (w * w) data k z) =
         partial_planar (w * w) data (w * w) z"
  using assms(2)
proof (induction "w * w - k" arbitrary: k)
  case 0
  then have "k = w * w" by simp
  with assms(1) show ?case by (subst preprocess_loop.simps) simp
next
  case (Suc m)
  then have k: "k < w * w" by simp
  have "preprocess_loop w data (4 * k) (partial_planar (w * w) data k z) =
        preprocess_loop w data (4 * Suc k) (partial_planar (w * w) data (Suc k) z)"
    using preprocess_loop_unfold [OF k assms(1)] partial_planar_step [OF k] by simp
  also have "\<dots> = partial_planar (w * w) data (w * w) z"
    using Suc.hyps(2) k by (intro Suc.hyps(1)) auto
  finally show ?case .
qed

lemma partial_planar_0: "partial_planar n data 0 z = replicate (3 * n) z"
  by (simp add: partial_planar_def map_replicate_const)

lemma channel_planes_length: "x \<in> set [0, 1, 2] \<Longrightarrow> length (map (channel_value data x) [0..<n]) = n"
  by simp

lemma planar_tensor_nth:
  assumes "j < 3 * n"
  shows "planar_tensor n data ! j = channel_value data (j div n) (j mod n)"
proof -
  have n: "0 < n" using assms by simp
  have c: "j div n < length [0::nat, 1, 2]" using assms by (simp add: div_less_iff_less_mult mult.commute)
  have "planar_tensor n data ! (j div n * n + j mod n) = map (channel_value data ([0, 1, 2] ! (j div n))) [0..<n] ! (j mod n)"
    unfolding planar_tensor_def using n by (intro nth_concat_blocks [where n = n, OF channel_planes_length c]) simp_all
  moreover have "[0::nat, 1, 2] ! (j div n) = j div n"
    using c by (auto simp: less_Suc_eq nth_Cons split: nat.splits)
  ultimately show ?thesis using n by simp
qed

lemma length_planar_tensor [simp]: "length (planar_tensor n data) = 3 * n"
  by (simp add: planar_tensor_def)

lemma partial_planar_full: "0 < n \<Longrightarrow> partial_planar n data n z = planar_tensor n data"
  by (rule nth_equalityI) (simp_all add: partial_planar_def planar_tensor_nth)

lemma preprocess_loop_planar:
  assumes "length data = 4 * (w * w)"
  shows "preprocess_loop w data 0 (replicate (3 * w * w) z) = planar_tensor (w * w) data"
proof (cases "w = 0")
  case True
  with assms show ?thesis by (simp add: preprocess_loop.simps planar_tensor_def)
next
  case False
  have "preprocess_loop w data (4 * 0) (partial_planar (w * w) data 0 z) =
        partial_planar (w * w) data (w * w) z"
    by (rule preprocess_loop_partial [OF assms]) simp
  then show ?thesis using False by (simp add: partial_planar_0 partial_planar_full mult.assoc)
qed

lemma channel_value_in_range:
  assumes "4 * p + c < length data"
  shows "channel_value data c p = Fin (byte_div255_f32 (data ! (4 * p + c)))"
proof -
  have "u8_read data (4 * p + c) = Fin (of_nat (unat (data ! (4 * p + c))))"
    using assms by (rule u8_read_in_range)
  then show ?thesis by (simp only: channel_value_def channel_raw_def store_byte_div255)
qed

lemma preprocess_loop_layout:
  assumes "length data = 4 * (w * w)" "c < 3" "y < w" "x < w"
  shows "preprocess_loop w data 0 (replicate (3 * w * w) z) ! (c * (w * w) + (y * w + x)) =
         Fin (byte_div255_f32 (data ! (4 * (y * w + x) + c)))"
proof -
  have p: "y * w + x < w * w"
  proof -
    have "y * w + x < y * w + w" using assms(4) by simp
    also have "\<dots> = Suc y * w" by simp
    also have "\<dots> \<le> w * w" by (metis Suc_leI assms(3) mult_le_mono1)
    finally show ?thesis .
  qed
  have j: "c * (w * w) + (y * w + x) < 3 * (w * w)"
  proof -
    have "c * (w * w) + (y * w + x) < c * (w * w) + w * w" using p by simp
    also have "\<dots> = Suc c * (w * w)" by simp
    also have "\<dots> \<le> 3 * (w * w)" using assms(2) by (intro mult_le_mono1) simp
    finally show ?thesis .
  qed
  have ix: "4 * (y * w + x) + c < length data" using p assms(1,2) by simp
  have dm: "(c * (w * w) + (y * w + x)) div (w * w) = c \<and> (c * (w * w) + (y * w + x)) mod (w * w) = y * w + x"
    using block_index [OF p, of "c * (w * w) + (y * w + x)" c] by simp
  show ?thesis
    using j dm ix by (simp add: preprocess_loop_planar [OF assms(1)] planar_tensor_nth channel_value_in_range)
qed

lemma preprocessImage_total_aux:
  "\<exists>t. preprocessImage data = Inr t \<and> ttype t = ''float32'' \<and> tdims t = [1, 3, 177, 177]
       \<and> length (tdata t) = 3 * 177 * 177"
  by (simp add: preprocessImage_def ort_Tensor_def length_preprocess_loop)

lemma preprocessImage_entry:
  assumes "length data = 4 * 177 * 177" "c < 3" "y < 177" "x < 177"
  shows "\<exists>t. preprocessImage data = Inr t \<and>
             tdata t ! (c * (177 * 177) + (y * 177 + x)) =
             Fin (byte_div255_f32 (data ! (4 * (y * 177 + x) + c)))"
proof -
  have "preprocess_loop 177 data 0 (replicate (3 * 177 * 177) (Fin 0)) ! (c * (177 * 177) + (y * 177 + x)) =
        Fin (byte_div255_f32 (data ! (4 * (y * 177 + x) + c)))"
    using assms by (intro preprocess_loop_layout) simp_all
  then show ?thesis
    by (simp add: preprocessImage_def ort_Tensor_def length_preprocess_loop del: of_nat_unat)
qed

lemma preprocessImage_planar_eq:
  assumes "length data = 4 * 177 * 177"
  shows "preprocessImage data =
         Inr \<lparr>ttype = ''float32'', tdata = planar_tensor (177 * 177) data, tdims = [1, 3, 177, 177]\<rparr>"
  using preprocess_loop_planar [of data 177 "Fin 0"] assms
  by (simp add: preprocessImage_def ort_Tensor_def length_preprocess_loop)


lemma planar_index_bound:
  assumes "j < 3 * (n::nat)"
  shows "4 * (j mod n) + j div n < 4 * n"
proof -
  have n: "0 < n" using assms by simp
  have d: "j div n < 3" using assms by (simp add: div_less_iff_less_mult mult.commute)
  have "j mod n < n" using n by simp
  then have "4 * (j mod n) + 4 \<le> 4 * n" by simp
  then show ?thesis using d by simp
qed

lemma channel_value_bounds:
  assumes "4 * p + c < length data"
  shows "\<exists>q. channel_value data c p = Fin q \<and> 0 \<le> q \<and> q \<le> 1"
proof -
  let ?q = "byte_div255_f32 (data ! (4 * p + c))"
  have "channel_value data c p = Fin ?q" using assms by (rule channel_value_in_range)
  moreover have "0 \<le> ?q \<and> ?q \<le> 1" by (rule byte_div255_f32_bounds)
  ultimately show ?thesis by blast
qed

lemma planar_tensor_bounds:
  assumes "length data = 4 * n" "v \<in> set (planar_tensor n data)"
  shows "\<exists>q. v = Fin q \<and> 0 \<le> q \<and> q \<le> 1"
proof -
  from assms(2) obtain j where j: "j < 3 * n" and v: "v = planar_tensor n data ! j"
    by (auto simp: in_set_conv_nth)
  from planar_index_bound [OF j] show ?thesis
    using channel_value_bounds [of "j mod n" "j div n" data] assms(1) j v by (simp add: planar_tensor_nth)
qed



lemma denormalise_byte: "denormalise (Fin (byte_div255_f32 b)) = Some b"
  by (simp add: denormalise_def byte_div255_f32_recover)

lemma rgb_planes_nth:
  assumes "j < 3 * n"
  shows "rgb_planes n data ! j = data ! (4 * (j mod n) + j div n)"
proof -
  have n: "0 < n" using assms by simp
  have c: "j div n < length [0::nat, 1, 2]" using assms by (simp add: div_less_iff_less_mult mult.commute)
  have "rgb_planes n data ! (j div n * n + j mod n) = map (\<lambda>p. data ! (4 * p + [0, 1, 2] ! (j div n))) [0..<n] ! (j mod n)"
    unfolding rgb_planes_def using n c by (intro nth_concat_blocks [where n = n]) simp_all
  moreover have "[0::nat, 1, 2] ! (j div n) = j div n"
    using c by (auto simp: less_Suc_eq nth_Cons split: nat.splits)
  ultimately show ?thesis using n by simp
qed

lemma planar_tensor_denormalise:
  assumes "length data = 4 * n"
  shows "map denormalise (planar_tensor n data) = map Some (rgb_planes n data)"
proof (rule nth_equalityI)
  show "length (map denormalise (planar_tensor n data)) = length (map Some (rgb_planes n data))"
    by (simp add: rgb_planes_def)
next
  fix j assume "j < length (map denormalise (planar_tensor n data))"
  then have j: "j < 3 * n" by simp
  have "planar_tensor n data ! j = Fin (byte_div255_f32 (data ! (4 * (j mod n) + j div n)))"
    using planar_index_bound [OF j] assms by (simp add: planar_tensor_nth [OF j] channel_value_in_range mult.commute)
  then have "denormalise (planar_tensor n data ! j) = Some (data ! (4 * (j mod n) + j div n))"
    by (simp only: denormalise_byte)
  moreover have "length (rgb_planes n data) = 3 * n" by (simp add: rgb_planes_def)
  ultimately show "map denormalise (planar_tensor n data) ! j = map Some (rgb_planes n data) ! j"
    using j by (simp add: rgb_planes_nth [OF j])
qed


lemma preprocess_loop_ignores_alpha:
  assumes "length d1 = length d2" "\<And>i. i < length d1 \<Longrightarrow> i mod 4 \<noteq> 3 \<Longrightarrow> d1 ! i = d2 ! i"
    and "i mod 4 = 0"
  shows "preprocess_loop w d1 i input = preprocess_loop w d2 i input"
  using assms(3)
proof (induction "length d1 - i" arbitrary: i input rule: less_induct)
  case less
  show ?case
  proof (cases "i < length d1")
    case False
    then show ?thesis
      using assms(1) by (simp add: preprocess_loop.simps [of w d1 i] preprocess_loop.simps [of w d2 i])
  next
    case True
  have r: "\<And>j. j mod 4 \<noteq> 3 \<Longrightarrow> u8_read d1 j = u8_read d2 j"
    using assms by (simp add: u8_read_def)
  have r0: "u8_read d1 i = u8_read d2 i" using less.prems by (intro r) simp
  have r1: "u8_read d1 (Suc i) = u8_read d2 (Suc i)" using less.prems by (intro r) presburger
  have r2: "u8_read d1 (Suc (Suc i)) = u8_read d2 (Suc (Suc i))" using less.prems by (intro r) presburger
  have lt: "i < length d2" using True assms(1) by simp
  have ih: "\<And>input. preprocess_loop w d1 (i + 4) input = preprocess_loop w d2 (i + 4) input"
    using True less.prems by (intro less.hyps) auto
  show ?thesis
    using lt True
    by (simp add: preprocess_loop.simps [of w d1 i] preprocess_loop.simps [of w d2 i] Let_def r0 r1 r2 ih)
  qed
qed

lemma preprocessImage_ignores_alpha_aux:
  assumes "length d1 = length d2" "\<And>i. i < length d1 \<Longrightarrow> i mod 4 \<noteq> 3 \<Longrightarrow> d1 ! i = d2 ! i"
  shows "preprocessImage d1 = preprocessImage d2"
  using preprocess_loop_ignores_alpha [OF assms, of 0] by (simp add: preprocessImage_def)

lemma planar_tensor_solid:
  "planar_tensor n (concat (replicate n [r, g, b, a])) =
   replicate n (Fin (byte_div255_f32 r)) @ replicate n (Fin (byte_div255_f32 g)) @
   replicate n (Fin (byte_div255_f32 b))"
  (is "planar_tensor n ?d = ?rhs")
proof (rule nth_equalityI)
  show "length (planar_tensor n ?d) = length ?rhs" by simp
next
  fix j assume "j < length (planar_tensor n ?d)"
  then have j: "j < 3 * n" by simp
  have n: "0 < n" using j by simp
  have ld: "length ?d = 4 * n" by (simp add: length_concat_replicate)
  have ix: "4 * (j mod n) + j div n < length ?d"
    using planar_index_bound [OF j] ld by simp
  have px: "?d ! (4 * (j mod n) + j div n) = [r, g, b, a] ! (j div n)"
  proof -
    have "j div n < length [r, g, b, a]" using j by (simp add: div_less_iff_less_mult mult.commute)
    moreover have "j mod n < n" using n by simp
    ultimately have "?d ! (length [r, g, b, a] * (j mod n) + j div n) = [r, g, b, a] ! (j div n)"
      by (intro nth_concat_replicate)
    moreover have "length [r, g, b, a] = 4" by simp
    ultimately show ?thesis by (simp only:)
  qed
  have lhs: "planar_tensor n ?d ! j = Fin (byte_div255_f32 ([r, g, b, a] ! (j div n)))"
    using ix by (simp only: planar_tensor_nth [OF j] channel_value_in_range px)
  consider "j < n" | "n \<le> j" "j < 2 * n" | "2 * n \<le> j" by linarith
  then show "planar_tensor n ?d ! j = ?rhs ! j"
  proof cases
    case 1
    then show ?thesis using lhs by (simp add: nth_append)
  next
    case 2
    then have "j div n = 1" by (simp add: div_nat_eqI)
    moreover have "j - n < n" using 2 by arith
    ultimately show ?thesis using lhs 2 by (simp add: nth_append)
  next
    case 3
    then have "j div n = 2" using j by (simp add: div_nat_eqI)
    moreover have "\<not> j - n < n" using 3 by arith
    ultimately show ?thesis using lhs 3 j by (simp add: nth_append)
  qed
qed

subsection \<open>Properties of preprocessImage\<close>

text \<open>C1. On a canvas buffer of 177\<times>177 RGBA pixels, \<open>preprocessImage\<close> returns the
  float32 tensor of shape [1, 3, 177, 177] whose data is the channel-planar layout of
  the spec: all red values, then all green, then all blue, each divided by 255 (in
  double arithmetic) and stored as a float32.\<close>

theorem preprocessImage_planar:
  assumes "length data = 4 * 177 * 177"
  shows "preprocessImage data =
         Inr \<lparr>ttype = ''float32'', tdata = planar_tensor (177 * 177) data, tdims = [1, 3, 177, 177]\<rparr>"
  using assms by (rule preprocessImage_planar_eq)

theorem preprocessImage_planar_witness:
  "length (replicate (4 * 177 * 177) (0::byte)) = 4 * 177 * 177 \<and>
   preprocessImage (replicate (4 * 177 * 177) 0) =
   Inr \<lparr>ttype = ''float32'', tdata = planar_tensor (177 * 177) (replicate (4 * 177 * 177) 0),
        tdims = [1, 3, 177, 177]\<rparr>"
proof -
  have h: "length (replicate (4 * 177 * 177) (0::byte)) = 4 * 177 * 177" by simp
  show ?thesis by (rule conjI [OF h preprocessImage_planar [OF h]])
qed

text \<open>C2. Tensor element \<open>c * 177 * 177 + y * 177 + x\<close> is channel \<open>c\<close> of the canvas
  pixel in row \<open>y\<close> and column \<open>x\<close>, divided by 255 and rounded to float32
  (\<open>byte_div255_f32\<close>): the layout is row-major within
  each channel plane, although the script names the column index \<open>rowIndex\<close>.\<close>

theorem preprocessImage_layout:
  assumes "length data = 4 * 177 * 177" "c < 3" "y < 177" "x < 177"
  shows "\<exists>t. preprocessImage data = Inr t \<and>
             tdata t ! (c * (177 * 177) + (y * 177 + x)) =
             Fin (byte_div255_f32 (data ! (4 * (y * 177 + x) + c)))"
  using assms by (rule preprocessImage_entry)

theorem preprocessImage_layout_witness:
  "length (replicate (4 * 177 * 177) (0::byte)) = 4 * 177 * 177 \<and> (2::nat) < 3 \<and> (5::nat) < 177 \<and>
   (7::nat) < 177 \<and>
   (\<exists>t. preprocessImage (replicate (4 * 177 * 177) 0) = Inr t \<and>
        tdata t ! (2 * (177 * 177) + (5 * 177 + 7)) =
        Fin (byte_div255_f32 (replicate (4 * 177 * 177) (0::byte) ! (4 * (5 * 177 + 7) + 2))))"
proof -
  have h: "length (replicate (4 * 177 * 177) (0::byte)) = 4 * 177 * 177" by simp
  have c: "(2::nat) < 3" and y: "(5::nat) < 177" and x: "(7::nat) < 177" by simp_all
  show ?thesis by (intro conjI h c y x preprocessImage_layout [OF h c y x])
qed

text \<open>C3. \<open>preprocessImage\<close> never throws: for every canvas buffer it returns a
  float32 tensor of dimensions [1, 3, 177, 177] holding exactly 3 * 177 * 177 values,
  so the size check of the tensor constructor always passes.\<close>

theorem preprocessImage_total:
  "\<exists>t. preprocessImage data = Inr t \<and> ttype t = ''float32'' \<and> tdims t = [1, 3, 177, 177]
       \<and> length (tdata t) = 3 * 177 * 177"
  by (rule preprocessImage_total_aux)

text \<open>C4. On a 177\<times>177 canvas buffer every value of the tensor is a finite number in
  [0, 1].\<close>

theorem preprocessImage_unit_interval:
  assumes "length data = 4 * 177 * 177"
  shows "\<exists>t. preprocessImage data = Inr t \<and> (\<forall>v \<in> set (tdata t). \<exists>q. v = Fin q \<and> 0 \<le> q \<and> q \<le> 1)"
  using preprocessImage_planar_eq [OF assms] planar_tensor_bounds [where n = "177 * 177"] assms
  by simp

theorem preprocessImage_unit_interval_witness:
  "length (replicate (4 * 177 * 177) (255::byte)) = 4 * 177 * 177 \<and>
   (\<exists>t. preprocessImage (replicate (4 * 177 * 177) 255) = Inr t \<and>
        (\<forall>v \<in> set (tdata t). \<exists>q. v = Fin q \<and> 0 \<le> q \<and> q \<le> 1))"
proof -
  have h: "length (replicate (4 * 177 * 177) (255::byte)) = 4 * 177 * 177" by simp
  show ?thesis by (intro conjI h preprocessImage_unit_interval [OF h])
qed

text \<open>C5. Normalisation round trip: multiplying each tensor value by 255 and rounding gives
  back the red, green and blue bytes of the canvas, plane by plane; the double division
  and the float32 store lose no colour information.\<close>

theorem preprocessImage_roundtrip:
  assumes "length data = 4 * 177 * 177"
  shows "\<exists>t. preprocessImage data = Inr t \<and>
             map denormalise (tdata t) = map Some (rgb_planes (177 * 177) data)"
  using preprocessImage_planar_eq [OF assms] planar_tensor_denormalise [where n = "177 * 177"] assms
  by simp

theorem preprocessImage_roundtrip_witness:
  "length (replicate (4 * 177 * 177) (128::byte)) = 4 * 177 * 177 \<and>
   (\<exists>t. preprocessImage (replicate (4 * 177 * 177) 128) = Inr t \<and>
        map denormalise (tdata t) = map Some (rgb_planes (177 * 177) (replicate (4 * 177 * 177) 128)))"
proof -
  have h: "length (replicate (4 * 177 * 177) (128::byte)) = 4 * 177 * 177" by simp
  show ?thesis by (intro conjI h preprocessImage_roundtrip [OF h])
qed

text \<open>C6. The alpha bytes of the canvas do not influence the tensor: two buffers of
  the same length that agree on every red, green and blue byte give the same result.\<close>

theorem preprocessImage_ignores_alpha:
  assumes "length d1 = length d2" "\<forall>i < length d1. i mod 4 \<noteq> 3 \<longrightarrow> d1 ! i = d2 ! i"
  shows "preprocessImage d1 = preprocessImage d2"
  using assms by (intro preprocessImage_ignores_alpha_aux) auto

theorem preprocessImage_ignores_alpha_witness:
  "length [1, 2, 3, 0 :: byte] = length [1, 2, 3, 255 :: byte] \<and>
   preprocessImage [1, 2, 3, 0] = preprocessImage [1, 2, 3, 255]"
proof -
  have h1: "length [1, 2, 3, 0 :: byte] = length [1, 2, 3, 255 :: byte]" by simp
  have h2: "\<forall>i < length [1, 2, 3, 0 :: byte]. i mod 4 \<noteq> 3 \<longrightarrow>
      [1, 2, 3, 0 :: byte] ! i = [1, 2, 3, 255 :: byte] ! i"
  proof (intro allI impI)
    fix i assume "i < length [1, 2, 3, 0 :: byte]" "i mod 4 \<noteq> 3"
    then have "i = 0 \<or> i = 1 \<or> i = 2" by auto
    then show "[1, 2, 3, 0 :: byte] ! i = [1, 2, 3, 255 :: byte] ! i" by auto
  qed
  show ?thesis by (intro conjI h1 preprocessImage_ignores_alpha [OF h1 h2])
qed


text \<open>C25. Rounding error of the normalisation: each tensor entry, the double
  \<open>data[i] / 255\<close> stored as a float32, is within \<open>2^-23\<close> of the exact quotient,
  relative to it (one rounding to 53 bits, then one to 24 bits).\<close>

theorem preprocessImage_rounding_error:
  assumes "length data = 4 * 177 * 177" "c < 3" "y < 177" "x < 177"
  shows "\<exists>t q. preprocessImage data = Inr t \<and> tdata t ! (c * (177 * 177) + (y * 177 + x)) = Fin q \<and>
           \<bar>q - of_nat (unat (data ! (4 * (y * 177 + x) + c))) / 255\<bar>
             \<le> of_nat (unat (data ! (4 * (y * 177 + x) + c))) / 255 / 2 ^ 23"
proof -
  obtain t where "preprocessImage data = Inr t"
    and "tdata t ! (c * (177 * 177) + (y * 177 + x)) = Fin (byte_div255_f32 (data ! (4 * (y * 177 + x) + c)))"
    using preprocessImage_entry [OF assms] by blast
  then show ?thesis using byte_div255_f32_error by blast
qed

theorem preprocessImage_rounding_error_witness:
  "length (concat (replicate (177 * 177) [255, 0, 0, 255 :: byte])) = 4 * 177 * 177 \<and>
   (0::nat) < 3 \<and> (0::nat) < 177 \<and> (0::nat) < 177 \<and>
   (\<exists>t q. preprocessImage (concat (replicate (177 * 177) [255, 0, 0, 255])) = Inr t \<and>
      tdata t ! (0 * (177 * 177) + (0 * 177 + 0)) = Fin q \<and>
      \<bar>q - of_nat (unat (concat (replicate (177 * 177) [255, 0, 0, 255 :: byte]) ! (4 * (0 * 177 + 0) + 0))) / 255\<bar>
        \<le> of_nat (unat (concat (replicate (177 * 177) [255, 0, 0, 255 :: byte]) ! (4 * (0 * 177 + 0) + 0))) / 255 / 2 ^ 23)"
proof -
  have h1: "length (concat (replicate (177 * 177) [255, 0, 0, 255 :: byte])) = 4 * 177 * 177"
    by (simp add: length_concat_replicate)
  have h2: "(0::nat) < 3" and h3: "(0::nat) < 177" and h4: "(0::nat) < 177" by simp_all
  show ?thesis by (intro conjI h1 h2 h3 h4 preprocessImage_rounding_error [OF h1 h2 h3 h4])
qed

end
