(* ===== verification/Ranking.thy ===== *)
theory Ranking
  imports Ort
begin

text \<open>
  The post-processing of the model output (src/script.js, lines 83--110): the class
  labels, the index of the most likely class computed as
  \<^verbatim>\<open>probabilities.indexOf(Math.max(...probabilities))\<close>, and the rendering of one
  result row per probability followed by the "Most Likely Class" line. The results
  \<^verbatim>\<open>div\<close> is a list of display items (\<open>html\<close>): the string the script builds by
  \<^verbatim>\<open>innerHTML +=\<close> is their concatenation, each item one template of the source.
  Next to the code stands the spec's contract \<open>spec_rank\<close> (section 4.3 of the
  spec) with its "first maximum" rule \<open>first_max\<close>, a one-pass scan. The last
  sections read a rendering of a probability vector back as numbers: the printed
  percentages, their order and their sum.
\<close>

subsection \<open>Display items\<close>

text \<open>\<open>Para s\<close> is \<^verbatim>\<open><p>s</p>\<close>; \<open>ResultRow name pct\<close> the \<^verbatim>\<open>div.result\<close>
  template of lines 95--103 (label, bar of width pct\%, text pct\%); \<open>MostLikely name pct\<close>
  the heading and paragraph of lines 107--110.\<close>

datatype html = Para string | ResultRow string string | MostLikely string string

subsection \<open>The code\<close>

definition classNames :: "string list" where
  "classNames =
     [''anggur'', ''apel'', ''belimbing'', ''jeruk'', ''kiwi'',
      ''mangga'', ''nanas'', ''pisang'', ''semangka'', ''stroberi'']"

definition result_row :: "string \<Rightarrow> jsnum \<Rightarrow> html" where
  "result_row name prob = ResultRow (js_toUpperCase name) (js_toFixed2 (js_mul_pos prob 100))"

text \<open>\<open>probabilities.forEach((prob, index) => ...)\<close>: \<open>classNames[index]\<close> is
  \<open>undefined\<close> past the tenth class, and \<open>undefined.toUpperCase()\<close> throws. \<open>out\<close>
  is the content of the box so far (each row one \<^verbatim>\<open>+=\<close>); a throw carries the rows
  already written.\<close>

fun render_rows :: "html list \<Rightarrow> jsnum list \<Rightarrow> nat \<Rightarrow> (js_error \<times> html list) + html list" where
  "render_rows out [] index = Inr out"
| "render_rows out (prob # ps) index =
     (case js_array_get classNames (int index) of
        None \<Rightarrow> Inl (TypeError, out)
      | Some name \<Rightarrow> render_rows (out @ [result_row name prob]) ps (Suc index))"

definition maxIndex :: "jsnum list \<Rightarrow> int" where
  "maxIndex probabilities = js_indexOf probabilities (js_math_max probabilities)"

text \<open>Lines 90--110, from the computation of \<open>maxIndex\<close> to the last
  \<open>innerHTML +=\<close>: the box is emptied (line 93), the rows are appended, then the
  top-1 line. \<open>Inl (e, out)\<close> is the exception that leaves the block together with
  what the box holds at that moment.\<close>

definition render_block :: "jsnum list \<Rightarrow> (js_error \<times> html list) + html list" where
  "render_block probabilities =
     (let mi = maxIndex probabilities in
      case render_rows [] probabilities 0 of
        Inl err \<Rightarrow> Inl err
      | Inr out \<Rightarrow>
          (case js_array_get classNames mi of
             None \<Rightarrow> Inl (TypeError, out)
           | Some name \<Rightarrow>
               Inr (out @ [MostLikely (js_toUpperCase name)
                    (js_toFixed2 (js_mul_pos (case js_array_get probabilities mi of
                                                Some p \<Rightarrow> p | None \<Rightarrow> NaN) 100))])))"

text \<open>The outcome of the block as the code after it sees it: the exception, or the
  completed box.\<close>

definition render_results :: "jsnum list \<Rightarrow> js_error + html list" where
  "render_results probabilities =
     (case render_block probabilities of Inl (e, written) \<Rightarrow> Inl e | Inr out \<Rightarrow> Inr out)"

subsection \<open>The spec's contract\<close>

text \<open>The order of numbers without NaN, as a key in a linear order.\<close>

fun jsrank :: "jsnum \<Rightarrow> nat \<times> rat" where
  "jsrank NegInf = (0, 0)"
| "jsrank (Fin q) = (1, q)"
| "jsrank PosInf = (2, 0)"
| "jsrank NaN = (3, 0)"

text \<open>Index \<open>i\<close> holds a maximum and every earlier value is strictly smaller.\<close>

definition is_first_max :: "jsnum list \<Rightarrow> nat \<Rightarrow> bool" where
  "is_first_max ps i \<longleftrightarrow>
     i < length ps \<and> (\<forall>j < length ps. \<not> js_gt (ps ! j) (ps ! i)) \<and> (\<forall>j < i. js_gt (ps ! i) (ps ! j))"

text \<open>One pass, keeping the best index and value, replaced only by a strictly larger
  value: ties go to the lowest index.\<close>

fun argmax_scan :: "jsnum list \<Rightarrow> nat \<Rightarrow> nat \<Rightarrow> jsnum \<Rightarrow> nat" where
  "argmax_scan [] k bi bv = bi"
| "argmax_scan (x # xs) k bi bv =
     (if js_gt x bv then argmax_scan xs (Suc k) k x else argmax_scan xs (Suc k) bi bv)"

definition first_max :: "jsnum list \<Rightarrow> nat" where
  "first_max ps = (case ps of [] \<Rightarrow> 0 | x # xs \<Rightarrow> argmax_scan xs 1 0 x)"

datatype rank_error = LabelMismatchError

text \<open>\<open>rank(probs, labels)\<close>: the pairs in label order and the top-1 pair, or
  \<open>LabelMismatchError\<close> when the lengths differ.\<close>

definition spec_rank ::
  "jsnum list \<Rightarrow> string list \<Rightarrow> rank_error + ((string \<times> jsnum) list \<times> (string \<times> jsnum))" where
  "spec_rank probs labels =
     (if length probs \<noteq> length labels then Inl LabelMismatchError
      else Inr (zip labels probs, (labels ! first_max probs, probs ! first_max probs)))"

text \<open>How a ranking is shown: the rows, then the top-1 line.\<close>

definition display_ranking :: "(string \<times> jsnum) list \<times> (string \<times> jsnum) \<Rightarrow> html list" where
  "display_ranking r =
     map (\<lambda>(l, p). result_row l p) (fst r) @
     [MostLikely (js_toUpperCase (fst (snd r))) (js_toFixed2 (js_mul_pos (snd (snd r)) 100))]"

text \<open>The spec's \<open>ProbabilityVector\<close> entries: finite numbers in [0, 1]. Reading a
  display back: the exact value of a probability and the number a row's percentage
  string denotes.\<close>

fun is_probability :: "jsnum \<Rightarrow> bool" where
  "is_probability (Fin q) = (0 \<le> q \<and> q \<le> 1)"
| "is_probability _ = False"

fun prob_value :: "jsnum \<Rightarrow> rat" where
  "prob_value (Fin q) = q"
| "prob_value _ = 0"

fun shown_percent :: "html \<Rightarrow> rat" where
  "shown_percent (ResultRow name pct) = parse_fixed pct"
| "shown_percent _ = 0"

subsection \<open>Lemmas\<close>

lemma js_gt_rank: "js_gt x y \<longleftrightarrow> x \<noteq> NaN \<and> y \<noteq> NaN \<and> jsrank y < jsrank x"
  by (cases x; cases y) auto

lemma jsrank_inj: "x \<noteq> NaN \<Longrightarrow> y \<noteq> NaN \<Longrightarrow> jsrank x = jsrank y \<Longrightarrow> x = y"
  by (cases x; cases y) auto

lemma jsrank_NegInf_le: "x \<noteq> NaN \<Longrightarrow> jsrank NegInf \<le> jsrank x"
  by (cases x) auto

lemma js_max_loop_max:
  assumes "highest \<noteq> NaN" "NaN \<notin> set xs"
  shows "js_max_loop highest xs \<in> insert highest (set xs) \<and>
         (\<forall>y \<in> insert highest (set xs). jsrank y \<le> jsrank (js_max_loop highest xs))"
  using assms
proof (induction xs arbitrary: highest)
  case Nil
  then show ?case by simp
next
  case (Cons x xs)
  let ?h = "if js_gt x highest then x else highest"
  have h: "?h \<noteq> NaN" "NaN \<notin> set xs" using Cons.prems by auto
  have x: "x \<noteq> NaN" using Cons.prems by auto
  have ge: "jsrank highest \<le> jsrank ?h \<and> jsrank x \<le> jsrank ?h"
    using x Cons.prems(1) by (auto simp: js_gt_rank)
  from Cons.IH [OF h] ge x show ?case by force
qed

lemma js_math_max_in_set:
  assumes "ps \<noteq> []" "NaN \<notin> set ps"
  shows "js_math_max ps \<in> set ps \<and> (\<forall>y \<in> set ps. jsrank y \<le> jsrank (js_math_max ps))"
proof -
  have m: "js_math_max ps \<in> insert NegInf (set ps)"
    and le: "\<forall>y \<in> insert NegInf (set ps). jsrank y \<le> jsrank (js_math_max ps)"
    using js_max_loop_max [of NegInf ps] assms(2) by (simp_all add: js_math_max_def)
  have "js_math_max ps \<in> set ps"
  proof (cases "js_math_max ps = NegInf")
    case True
    obtain y where y: "y \<in> set ps" using assms(1) by (cases ps) auto
    then have "y \<noteq> NaN" using assms(2) by auto
    moreover have "jsrank y \<le> jsrank NegInf" using le y True by auto
    ultimately have "y = NegInf"
      using jsrank_NegInf_le [of y] by (intro jsrank_inj) auto
    with y True show ?thesis by simp
  next
    case False
    with m show ?thesis by simp
  qed
  with le show ?thesis by simp
qed

lemma js_indexOf_from_first:
  assumes "x \<noteq> NaN" "i < length xs" "xs ! i = x" "\<forall>j < i. xs ! j \<noteq> x"
  shows "js_indexOf_from xs x k = int (k + i)"
  using assms(2-4)
proof (induction xs arbitrary: i k)
  case Nil
  then show ?case by simp
next
  case (Cons y ys)
  show ?case
  proof (cases i)
    case 0
    with Cons.prems assms(1) show ?thesis by (cases x) auto
  next
    case (Suc i')
    have "y \<noteq> x" using Cons.prems(3) Suc by auto
    then have ne: "\<not> js_strict_eq x y" using assms(1) by (cases x) auto
    have "js_indexOf_from ys x (Suc k) = int (Suc k + i')"
      using Cons.prems Suc by (intro Cons.IH) auto
    with ne Suc show ?thesis by simp
  qed
qed


lemma first_index_exists: "x \<in> set xs \<Longrightarrow> \<exists>i < length xs. xs ! i = x \<and> (\<forall>j < i. xs ! j \<noteq> x)"
proof (induction xs)
  case Nil
  then show ?case by simp
next
  case (Cons y ys)
  show ?case
  proof (cases "y = x")
    case True
    then show ?thesis by auto
  next
    case False
    with Cons obtain i where "i < length ys" "ys ! i = x" "\<forall>j < i. ys ! j \<noteq> x" by auto
    with False show ?thesis
      by (intro exI [of _ "Suc i"]) (auto simp: less_Suc_eq_0_disj)
  qed
qed

lemma not_gt_rank: "x \<noteq> NaN \<Longrightarrow> y \<noteq> NaN \<Longrightarrow> \<not> js_gt x y \<longleftrightarrow> jsrank x \<le> jsrank y"
  by (auto simp: js_gt_rank)

lemma maxIndex_is_first_max_aux:
  assumes "ps \<noteq> []" "NaN \<notin> set ps"
  shows "\<exists>i. maxIndex ps = int i \<and> is_first_max ps i"
proof -
  let ?m = "js_math_max ps"
  have m: "?m \<in> set ps" and le: "\<forall>y \<in> set ps. jsrank y \<le> jsrank ?m"
    using js_math_max_in_set [OF assms] by auto
  have mn: "?m \<noteq> NaN" using m assms(2) by auto
  obtain i where i: "i < length ps" "ps ! i = ?m" "\<forall>j < i. ps ! j \<noteq> ?m"
    using first_index_exists [OF m] by blast
  have "maxIndex ps = int i"
    unfolding maxIndex_def js_indexOf_def using js_indexOf_from_first [OF mn i] by simp
  moreover have "is_first_max ps i"
    unfolding is_first_max_def
  proof (intro conjI allI impI)
    show "i < length ps" by (fact i(1))
  next
    fix j assume "j < length ps"
    then have "ps ! j \<in> set ps" by simp
    then show "\<not> js_gt (ps ! j) (ps ! i)" using le i(2) by (auto simp: js_gt_rank)
  next
    fix j assume j: "j < i"
    then have pj: "ps ! j \<in> set ps" using i(1) by simp
    then have "ps ! j \<noteq> NaN" using assms(2) by auto
    moreover have "jsrank (ps ! j) \<le> jsrank ?m" using le pj by simp
    moreover have "ps ! j \<noteq> ?m" using i(3) j by simp
    ultimately show "js_gt (ps ! i) (ps ! j)"
      using mn i(2) jsrank_inj [of "ps ! j" ?m] by (auto simp: js_gt_rank order.order_iff_strict)
  qed
  ultimately show ?thesis by blast
qed

lemma is_first_max_unique: "is_first_max ps i \<Longrightarrow> is_first_max ps i' \<Longrightarrow> i = i'"
  unfolding is_first_max_def by (metis linorder_neqE_nat)

lemma argmax_scan_first_max:
  assumes "is_first_max pre bi" "bv = pre ! bi" "NaN \<notin> set (pre @ xs)"
  shows "is_first_max (pre @ xs) (argmax_scan xs (length pre) bi bv)"
  using assms
proof (induction xs arbitrary: pre bi bv)
  case Nil
  then show ?case by simp
next
  case (Cons x xs)
  have xn: "x \<noteq> NaN" and pn: "\<forall>y \<in> set pre. y \<noteq> NaN" using Cons.prems(3) by auto
  have bi: "bi < length pre" using Cons.prems(1) by (simp add: is_first_max_def)
  have bvn: "bv \<noteq> NaN" using pn bi Cons.prems(2) by auto
  have bvmax: "\<forall>j < length pre. jsrank (pre ! j) \<le> jsrank bv"
    using Cons.prems(1,2) pn by (auto simp: is_first_max_def not_gt_rank)
  show ?case
  proof (cases "js_gt x bv")
    case True
    then have gt: "jsrank bv < jsrank x" by (simp add: js_gt_rank)
    have "is_first_max (pre @ [x]) (length pre)"
      unfolding is_first_max_def
      using bvmax gt xn pn by (auto simp: nth_append less_Suc_eq js_gt_rank not_le
                                   intro: order.strict_trans1 dest: leD)
    then have "is_first_max ((pre @ [x]) @ xs) (argmax_scan xs (length (pre @ [x])) (length pre) x)"
      using Cons.prems(3) by (intro Cons.IH) (auto simp: nth_append)
    with True show ?thesis by simp
  next
    case False
    have "is_first_max (pre @ [x]) bi"
      using Cons.prems(1,2) False bi unfolding is_first_max_def
      by (auto simp: nth_append less_Suc_eq)
    then have "is_first_max ((pre @ [x]) @ xs) (argmax_scan xs (length (pre @ [x])) bi bv)"
      using Cons.prems(2,3) bi by (intro Cons.IH) (auto simp: nth_append)
    with False show ?thesis by simp
  qed
qed

lemma first_max_is_first_max:
  assumes "ps \<noteq> []" "NaN \<notin> set ps"
  shows "is_first_max ps (first_max ps)"
proof (cases ps)
  case Nil
  with assms show ?thesis by simp
next
  case (Cons x xs)
  have "is_first_max [x] 0" by (simp add: is_first_max_def js_gt_rank)
  then have "is_first_max ([x] @ xs) (argmax_scan xs (length [x]) 0 x)"
    using assms Cons by (intro argmax_scan_first_max) auto
  with Cons show ?thesis by (simp add: first_max_def)
qed

lemma maxIndex_eq_first_max:
  assumes "ps \<noteq> []" "NaN \<notin> set ps"
  shows "maxIndex ps = int (first_max ps)"
  using maxIndex_is_first_max_aux [OF assms] first_max_is_first_max [OF assms] is_first_max_unique by blast


lemma length_classNames [simp]: "length classNames = 10"
  by (simp add: classNames_def)

lemma js_array_get_nat [simp]: "js_array_get xs (int i) = (if i < length xs then Some (xs ! i) else None)"
  by (simp add: js_array_get_def)

lemma js_array_get_negative [simp]: "js_array_get xs (-1) = None"
  by (simp add: js_array_get_def)

lemma render_rows_ok:
  "index + length ps \<le> length classNames \<Longrightarrow>
   render_rows out ps index = Inr (out @ map (\<lambda>(l, p). result_row l p) (zip (drop index classNames) ps))"
proof (induction ps arbitrary: out index)
  case Nil
  then show ?case by simp
next
  case (Cons p ps)
  then have i: "index < length classNames" by simp
  then have d: "drop index classNames = classNames ! index # drop (Suc index) classNames"
    by (simp add: Cons_nth_drop_Suc)
  have "render_rows (out @ [result_row (classNames ! index) p]) ps (Suc index) =
        Inr ((out @ [result_row (classNames ! index) p]) @
             map (\<lambda>(l, p). result_row l p) (zip (drop (Suc index) classNames) ps))"
    using Cons.prems by (intro Cons.IH) simp
  with i d show ?case by simp
qed

lemma render_rows_error:
  "index \<le> length classNames \<Longrightarrow> length classNames < index + length ps \<Longrightarrow>
   \<exists>w. render_rows out ps index = Inl (TypeError, w)"
proof (induction ps arbitrary: out index)
  case Nil
  then show ?case by simp
next
  case (Cons p ps)
  then show ?case by (cases "index < length classNames") (simp_all add: js_array_get_def)
qed

lemma render_rows_Inl: "render_rows out ps index = Inl (e, w) \<Longrightarrow> e = TypeError"
  by (induction out ps index rule: render_rows.induct) (auto split: option.splits)

lemma js_max_loop_NaN: "NaN \<in> set xs \<Longrightarrow> js_max_loop h xs = NaN"
proof (induction xs arbitrary: h)
  case Nil
  then show ?case by simp
next
  case (Cons x xs)
  then show ?case by (cases "x = NaN") auto
qed

lemma js_indexOf_from_NaN: "js_indexOf_from xs NaN k = -1"
  by (induction xs arbitrary: k) simp_all

lemma maxIndex_NaN: "NaN \<in> set ps \<Longrightarrow> maxIndex ps = -1"
  by (simp add: maxIndex_def js_math_max_def js_max_loop_NaN js_indexOf_def js_indexOf_from_NaN)

lemma maxIndex_Nil: "maxIndex [] = -1"
  by (simp add: maxIndex_def js_indexOf_def)

lemma render_results_ok:
  assumes "ps \<noteq> []" "NaN \<notin> set ps" "length ps \<le> length classNames"
  shows "render_results ps =
         Inr (map (\<lambda>(l, p). result_row l p) (zip classNames ps) @
              [MostLikely (js_toUpperCase (classNames ! first_max ps))
                 (js_toFixed2 (js_mul_pos (ps ! first_max ps) 100))])"
proof -
  have fm: "first_max ps < length ps"
    using first_max_is_first_max [OF assms(1,2)] by (simp add: is_first_max_def)
  show ?thesis
    using render_rows_ok [of 0 ps "[]"] assms(3) fm maxIndex_eq_first_max [OF assms(1,2)]
    by (simp add: render_results_def render_block_def)
qed

lemma render_results_NaN: "NaN \<in> set ps \<Longrightarrow> render_results ps = Inl TypeError"
  by (auto simp: render_results_def render_block_def maxIndex_NaN Let_def dest: render_rows_Inl
           split: sum.split)

lemma render_results_long: "length classNames < length ps \<Longrightarrow> render_results ps = Inl TypeError"
  using render_rows_error [of 0 ps "[]"] by (auto simp: render_results_def render_block_def Let_def)

lemma render_results_Nil: "render_results [] = Inl TypeError"
  by (simp add: render_results_def render_block_def maxIndex_Nil Let_def)

lemma render_results_error_iff_aux:
  "(\<exists>e. render_results ps = Inl e) \<longleftrightarrow> ps = [] \<or> NaN \<in> set ps \<or> 10 < length ps"
proof (cases "ps = [] \<or> NaN \<in> set ps \<or> 10 < length ps")
  case True
  then show ?thesis using render_results_Nil render_results_NaN render_results_long by auto
next
  case False
  then show ?thesis using render_results_ok [of ps] by auto
qed



subsection \<open>Properties of the ranking\<close>

lemma render_results_spec_rank_aux:
  assumes "spec_rank ps classNames = Inr r" "NaN \<notin> set ps"
  shows "render_results ps = Inr (display_ranking r)"
proof -
  have l: "length ps = length classNames" and
       r: "r = (zip classNames ps, (classNames ! first_max ps, ps ! first_max ps))"
    using assms(1) by (auto simp: spec_rank_def split: if_splits)
  have "ps \<noteq> []" using l by auto
  with l assms(2) show ?thesis by (simp add: render_results_ok r display_ranking_def)
qed

text \<open>C7. On a non-empty output vector without NaN, the script's two-pass
  \<open>indexOf(Math.max(...))\<close> returns the same index as the spec's one-pass scan
  \<open>first_max\<close>.\<close>

theorem maxIndex_first_max:
  assumes "ps \<noteq> []" "NaN \<notin> set ps"
  shows "maxIndex ps = int (first_max ps)"
  using assms by (rule maxIndex_eq_first_max)

theorem maxIndex_first_max_witness:
  "[Fin 1, Fin 3, Fin 3] \<noteq> [] \<and> NaN \<notin> set [Fin 1, Fin 3, Fin 3] \<and>
   maxIndex [Fin 1, Fin 3, Fin 3] = int (first_max [Fin 1, Fin 3, Fin 3])"
proof -
  have h1: "[Fin 1, Fin 3, Fin 3] \<noteq> []" and h2: "NaN \<notin> set [Fin 1, Fin 3, Fin 3]" by simp_all
  show ?thesis by (intro conjI h1 h2 maxIndex_first_max [OF h1 h2])
qed

text \<open>C8. Top-1 selection: on a non-empty output vector without NaN, \<open>maxIndex\<close> is
  an index of a maximal value, and every value before it is strictly smaller (ties go
  to the lowest index).\<close>

theorem maxIndex_is_first_max:
  assumes "ps \<noteq> []" "NaN \<notin> set ps"
  shows "\<exists>i. maxIndex ps = int i \<and> i < length ps \<and>
             (\<forall>j < length ps. \<not> js_gt (ps ! j) (ps ! i)) \<and> (\<forall>j < i. js_gt (ps ! i) (ps ! j))"
  using maxIndex_is_first_max_aux [OF assms] by (simp add: is_first_max_def)

theorem maxIndex_is_first_max_witness:
  "[Fin 1, Fin 3, Fin 3] \<noteq> [] \<and> NaN \<notin> set [Fin 1, Fin 3, Fin 3] \<and>
   (\<exists>i. maxIndex [Fin 1, Fin 3, Fin 3] = int i \<and> i < length [Fin 1, Fin 3, Fin 3] \<and>
        (\<forall>j < length [Fin 1, Fin 3, Fin 3]. \<not> js_gt ([Fin 1, Fin 3, Fin 3] ! j) ([Fin 1, Fin 3, Fin 3] ! i)) \<and>
        (\<forall>j < i. js_gt ([Fin 1, Fin 3, Fin 3] ! i) ([Fin 1, Fin 3, Fin 3] ! j)))"
proof -
  have h1: "[Fin 1, Fin 3, Fin 3] \<noteq> []" and h2: "NaN \<notin> set [Fin 1, Fin 3, Fin 3]" by simp_all
  show ?thesis by (intro conjI h1 h2 maxIndex_is_first_max [OF h1 h2])
qed

text \<open>C9. The rendering block throws (a \<open>TypeError\<close>, caught by the handler)
  exactly when the output vector is empty, holds a NaN, or has more than ten entries;
  a shorter vector is rendered without error.\<close>

theorem render_results_error_iff:
  "(\<exists>e. render_results ps = Inl e) \<longleftrightarrow> ps = [] \<or> NaN \<in> set ps \<or> 10 < length ps"
  by (rule render_results_error_iff_aux)

text \<open>C10. Refinement of the spec's \<open>rank\<close> contract: whenever \<open>rank\<close> succeeds on
  the output vector and the ten labels (and the vector holds no NaN), the script shows
  exactly that ranking: the rows in label order, then the top-1 pair.\<close>

theorem render_results_refines_spec_rank:
  assumes "spec_rank ps classNames = Inr r" "NaN \<notin> set ps"
  shows "render_results ps = Inr (display_ranking r)"
  using assms by (rule render_results_spec_rank_aux)

theorem render_results_refines_spec_rank_witness:
  "spec_rank [Fin (5/100), Fin (5/100), Fin (6/10), Fin (5/100), Fin (5/100), Fin (5/100), Fin (5/100), Fin (5/100), Fin (5/100), Fin (5/100)] classNames
     = Inr (zip classNames [Fin (5/100), Fin (5/100), Fin (6/10), Fin (5/100), Fin (5/100), Fin (5/100), Fin (5/100), Fin (5/100), Fin (5/100), Fin (5/100)], (''belimbing'', Fin (6/10))) \<and>
   NaN \<notin> set [Fin (5/100), Fin (5/100), Fin (6/10), Fin (5/100), Fin (5/100), Fin (5/100), Fin (5/100), Fin (5/100), Fin (5/100), Fin (5/100)] \<and>
   render_results [Fin (5/100), Fin (5/100), Fin (6/10), Fin (5/100), Fin (5/100), Fin (5/100), Fin (5/100), Fin (5/100), Fin (5/100), Fin (5/100)]
     = Inr (display_ranking (zip classNames [Fin (5/100), Fin (5/100), Fin (6/10), Fin (5/100), Fin (5/100), Fin (5/100), Fin (5/100), Fin (5/100), Fin (5/100), Fin (5/100)], (''belimbing'', Fin (6/10))))"
proof -
  have h1: "spec_rank [Fin (5/100), Fin (5/100), Fin (6/10), Fin (5/100), Fin (5/100), Fin (5/100), Fin (5/100), Fin (5/100), Fin (5/100), Fin (5/100)] classNames
     = Inr (zip classNames [Fin (5/100), Fin (5/100), Fin (6/10), Fin (5/100), Fin (5/100), Fin (5/100), Fin (5/100), Fin (5/100), Fin (5/100), Fin (5/100)], (''belimbing'', Fin (6/10)))"
    by (simp add: spec_rank_def first_max_def classNames_def)
  have h2: "NaN \<notin> set [Fin (5/100), Fin (5/100), Fin (6/10), Fin (5/100), Fin (5/100), Fin (5/100), Fin (5/100), Fin (5/100), Fin (5/100), Fin (5/100)]"
    by simp
  show ?thesis by (intro conjI h1 h2 render_results_refines_spec_rank [OF h1 h2])
qed
text \<open>C11. The label-count guard the spec asks for is missing: on a non-empty vector
  without NaN that is shorter than the label list, \<open>rank\<close> fails with
  \<open>LabelMismatchError\<close> but the script silently shows the first labels only.\<close>

theorem render_results_short_vector:
  assumes "ps \<noteq> []" "NaN \<notin> set ps" "length ps < length classNames"
  shows "spec_rank ps classNames = Inl LabelMismatchError \<and>
         render_results ps =
           Inr (display_ranking (zip classNames ps, (classNames ! first_max ps, ps ! first_max ps)))"
  using assms by (simp add: spec_rank_def render_results_ok display_ranking_def)

theorem render_results_short_vector_witness:
  "[Fin (3/10), Fin (7/10)] \<noteq> [] \<and> NaN \<notin> set [Fin (3/10), Fin (7/10)] \<and>
   length [Fin (3/10), Fin (7/10)] < length classNames \<and>
   spec_rank [Fin (3/10), Fin (7/10)] classNames = Inl LabelMismatchError \<and>
   render_results [Fin (3/10), Fin (7/10)] =
     Inr (display_ranking (zip classNames [Fin (3/10), Fin (7/10)],
       (classNames ! first_max [Fin (3/10), Fin (7/10)],
        [Fin (3/10), Fin (7/10)] ! first_max [Fin (3/10), Fin (7/10)])))"
proof -
  have h1: "[Fin (3/10), Fin (7/10)] \<noteq> []" and h2: "NaN \<notin> set [Fin (3/10), Fin (7/10)]"
    and h3: "length [Fin (3/10), Fin (7/10)] < length classNames" by simp_all
  show ?thesis by (intro conjI h1 h2 h3 render_results_short_vector [OF h1 h2 h3])
qed


subsection \<open>Printed percentages\<close>

lemma percentage_bounds:
  assumes "0 \<le> y" "y \<le> (100::rat)"
  shows "0 \<le> of_int \<lfloor>y * 100 + 1 / 2\<rfloor> / (100::rat) \<and> of_int \<lfloor>y * 100 + 1 / 2\<rfloor> / (100::rat) \<le> 100"
proof -
  have "\<lfloor>y * 100 + 1 / 2\<rfloor> \<le> 10000"
    using assms by (simp add: floor_le_iff)
  moreover have "0 \<le> \<lfloor>y * 100 + 1 / 2\<rfloor>" using assms by simp
  ultimately show ?thesis by simp
qed

text \<open>The double \<open>prob * 100\<close> for a probability in [0, 1]: in [0, 100] and within
  \<open>2^-47\<close> of the exact product.\<close>

lemma percent_double:
  assumes "0 \<le> q" "q \<le> 1"
  shows "js_mul_pos (Fin q) 100 = Fin (round_binary 53 (-1022) (q * 100)) \<and>
         0 \<le> round_binary 53 (-1022) (q * 100) \<and> round_binary 53 (-1022) (q * 100) \<le> 100 \<and>
         \<bar>round_binary 53 (-1022) (q * 100) - q * 100\<bar> \<le> 1 / 2 ^ 47"
proof -
  have x: "0 \<le> q * 100" "q * 100 \<le> of_nat (100::nat)" using assms by simp_all
  have f: "to_f64 (q * 100) = Fin (round_binary 53 (-1022) (q * 100))"
    using x by (rule to_f64_small) simp
  have b: "0 \<le> round_binary 53 (-1022) (q * 100) \<and> round_binary 53 (-1022) (q * 100) \<le> of_nat (100::nat)"
    using x by (intro round_binary_bounded) simp_all
  have "\<bar>q * 100\<bar> < 2 powi (6 + 1)" using assms by simp
  then have "\<bar>round_binary 53 (-1022) (q * 100) - q * 100\<bar> \<le> 2 powi (max 6 (-1022) - int 53 + 1) / 2"
    by (rule round_binary_error_below) simp
  then have e: "\<bar>round_binary 53 (-1022) (q * 100) - q * 100\<bar> \<le> 1 / 2 ^ 47"
    by (simp add: power_int_minus_divide)
  show ?thesis using f b e by simp
qed

text \<open>The percentage a row prints for a probability in [0, 1], read back: the double
  \<open>prob * 100\<close> rounded half-up to two decimals.\<close>

lemma percent_shown:
  assumes "0 \<le> q" "q \<le> 1"
  shows "parse_fixed (js_toFixed2 (js_mul_pos (Fin q) 100)) =
         of_int \<lfloor>round_binary 53 (-1022) (q * 100) * 100 + 1 / 2\<rfloor> / 100"
proof -
  let ?y = "round_binary 53 (-1022) (q * 100)"
  have d: "js_mul_pos (Fin q) 100 = Fin ?y" "0 \<le> ?y" "?y \<le> 100"
    using percent_double [OF assms] by simp_all
  have lt: "\<bar>?y\<bar> < 10 ^ 21" using d(2,3) by simp
  show ?thesis using toFixed2_parse [OF lt] d by simp
qed

lemma percent_shown_error:
  assumes "0 \<le> q" "q \<le> 1"
  shows "0 \<le> parse_fixed (js_toFixed2 (js_mul_pos (Fin q) 100)) \<and>
         parse_fixed (js_toFixed2 (js_mul_pos (Fin q) 100)) \<le> 100 \<and>
         \<bar>parse_fixed (js_toFixed2 (js_mul_pos (Fin q) 100)) - 100 * q\<bar> \<le> 1 / 200 + 1 / 2 ^ 47"
proof -
  let ?y = "round_binary 53 (-1022) (q * 100)"
  have d: "0 \<le> ?y" "?y \<le> 100" "\<bar>?y - q * 100\<bar> \<le> 1 / 2 ^ 47"
    using percent_double [OF assms] by simp_all
  have e: "\<bar>of_int \<lfloor>?y * 100 + 1 / 2\<rfloor> / 100 - ?y\<bar> \<le> 1 / 200"
    by (rule round_hundredths_error)
  have b: "0 \<le> of_int \<lfloor>?y * 100 + 1 / 2\<rfloor> / (100::rat) \<and> of_int \<lfloor>?y * 100 + 1 / 2\<rfloor> / (100::rat) \<le> 100"
    using d(1,2) by (rule percentage_bounds)
  have d3: "\<bar>?y - q * 100\<bar> \<le> 1 / 140737488355328" using d(3) by simp
  have "\<bar>of_int \<lfloor>?y * 100 + 1 / 2\<rfloor> / 100 - 100 * q\<bar> \<le> 1 / 200 + 1 / 140737488355328"
    using abs_le_D1 [OF e] abs_le_D2 [OF e] abs_le_D1 [OF d3] abs_le_D2 [OF d3]
    by (intro abs_leI) linarith+
  then show ?thesis using b unfolding percent_shown [OF assms] by simp
qed

text \<open>Printed percentages keep the order of the probabilities: the double product is
  monotone (\<open>round_binary_mono\<close>) and so is rounding half-up to hundredths.\<close>

lemma percent_shown_mono:
  assumes "0 \<le> q" "q \<le> q'" "q' \<le> 1"
  shows "parse_fixed (js_toFixed2 (js_mul_pos (Fin q) 100)) \<le> parse_fixed (js_toFixed2 (js_mul_pos (Fin q') 100))"
proof -
  have "round_binary 53 (-1022) (q * 100) \<le> round_binary 53 (-1022) (q' * 100)"
    using assms(2) by (intro round_binary_mono) simp_all
  then have "\<lfloor>round_binary 53 (-1022) (q * 100) * 100 + 1 / 2\<rfloor> \<le> \<lfloor>round_binary 53 (-1022) (q' * 100) * 100 + 1 / 2\<rfloor>"
    by (intro floor_mono) simp
  moreover have "q \<le> 1" "0 \<le> q'" using assms by simp_all
  ultimately show ?thesis
    unfolding percent_shown [OF assms(1) \<open>q \<le> 1\<close>] percent_shown [OF \<open>0 \<le> q'\<close> assms(3)]
    by (simp add: divide_right_mono)
qed

text \<open>C23. A row for a probability in [0, 1] prints a percentage that reads back as a
  number in [0, 100] within \<open>1/200 + 2^-47\<close> of the probability times 100: the
  rounding of \<open>toFixed(2)\<close> plus that of the double product (the same string is the
  bar's CSS width and the row's text).\<close>

theorem result_row_percentage:
  assumes "0 \<le> q" "q \<le> 1"
  shows "\<exists>s. result_row name (Fin q) = ResultRow (js_toUpperCase name) s \<and>
             0 \<le> parse_fixed s \<and> parse_fixed s \<le> 100 \<and>
             \<bar>parse_fixed s - 100 * q\<bar> \<le> 1 / 200 + 1 / 2 ^ 47"
  using percent_shown_error [OF assms] by (simp add: result_row_def)

theorem result_row_percentage_witness:
  "0 \<le> (6 / 10 :: rat) \<and> (6 / 10 :: rat) \<le> 1 \<and>
   (\<exists>s. result_row ''belimbing'' (Fin (6 / 10)) = ResultRow (js_toUpperCase ''belimbing'') s \<and>
        0 \<le> parse_fixed s \<and> parse_fixed s \<le> 100 \<and>
        \<bar>parse_fixed s - 100 * (6 / 10)\<bar> \<le> 1 / 200 + 1 / 2 ^ 47)"
proof -
  have h1: "0 \<le> (6 / 10 :: rat)" and h2: "(6 / 10 :: rat) \<le> 1" by simp_all
  show ?thesis by (intro conjI h1 h2 result_row_percentage [OF h1 h2])
qed

subsection \<open>What the display says about the probabilities\<close>

lemma probability_nth:
  assumes "list_all is_probability ps" "j < length ps"
  obtains q where "ps ! j = Fin q" "0 \<le> q" "q \<le> 1"
proof -
  have "is_probability (ps ! j)" using assms by (simp add: list_all_length)
  then show ?thesis using that by (cases "ps ! j") auto
qed

lemma probability_no_NaN: "list_all is_probability ps \<Longrightarrow> NaN \<notin> set ps"
  by (auto simp: list_all_iff)

lemma shown_percent_row: "shown_percent (result_row l p) = parse_fixed (js_toFixed2 (js_mul_pos p 100))"
  by (simp add: result_row_def)

lemma rows_percentages:
  "length ps \<le> length xs \<Longrightarrow>
   map shown_percent (map (\<lambda>(l, p). result_row l p) (zip xs ps)) =
   map (\<lambda>p. parse_fixed (js_toFixed2 (js_mul_pos p 100))) ps"
proof (induction ps arbitrary: xs)
  case (Cons p ps)
  then obtain x xs' where "xs = x # xs'" by (cases xs) auto
  then show ?case using Cons by (simp add: shown_percent_row)
qed simp

lemma percentages_sum_error:
  "list_all is_probability ps \<Longrightarrow>
   \<bar>sum_list (map (\<lambda>p. parse_fixed (js_toFixed2 (js_mul_pos p 100))) ps) - 100 * sum_list (map prob_value ps)\<bar>
     \<le> of_nat (length ps) * (1 / 200 + 1 / 2 ^ 47)"
proof (induction ps)
  case (Cons p ps)
  obtain q where p: "p = Fin q" "0 \<le> q" "q \<le> 1"
    using probability_nth [of "p # ps" 0] Cons.prems by auto
  have e: "\<bar>parse_fixed (js_toFixed2 (js_mul_pos (Fin q) 100)) - 100 * q\<bar> \<le> 1 / 200 + 1 / 2 ^ 47"
    using percent_shown_error [OF p(2,3)] by simp
  have ih: "\<bar>sum_list (map (\<lambda>p. parse_fixed (js_toFixed2 (js_mul_pos p 100))) ps) - 100 * sum_list (map prob_value ps)\<bar>
     \<le> of_nat (length ps) * (1 / 200 + 1 / 2 ^ 47)" using Cons by simp
  show ?case using p(1) abs_triangle_ineq [of "parse_fixed (js_toFixed2 (js_mul_pos (Fin q) 100)) - 100 * q"
      "sum_list (map (\<lambda>p. parse_fixed (js_toFixed2 (js_mul_pos p 100))) ps) - 100 * sum_list (map prob_value ps)"] e ih
    by (simp add: algebra_simps)
qed simp

text \<open>The rendering of a probability vector, as \<open>render_results_ok\<close> gives it, with the
  row of the first maximum among its rows.\<close>

lemma render_probabilities:
  assumes "ps \<noteq> []" "length ps \<le> length classNames" "list_all is_probability ps"
  shows "render_results ps =
           Inr (map (\<lambda>(l, p). result_row l p) (zip classNames ps) @
                [MostLikely (js_toUpperCase (classNames ! first_max ps))
                   (js_toFixed2 (js_mul_pos (ps ! first_max ps) 100))]) \<and>
         is_first_max ps (first_max ps) \<and>
         result_row (classNames ! first_max ps) (ps ! first_max ps) \<in> set (map (\<lambda>(l, p). result_row l p) (zip classNames ps))"
proof -
  have nan: "NaN \<notin> set ps" using assms(3) by (rule probability_no_NaN)
  have fm: "is_first_max ps (first_max ps)" by (rule first_max_is_first_max [OF assms(1) nan])
  then have lt: "first_max ps < length (zip classNames ps)" using assms(2) by (simp add: is_first_max_def)
  then have "zip classNames ps ! first_max ps \<in> set (zip classNames ps)" by (rule nth_mem)
  then have "(classNames ! first_max ps, ps ! first_max ps) \<in> set (zip classNames ps)" using lt by simp
  then have "result_row (classNames ! first_max ps) (ps ! first_max ps) \<in> set (map (\<lambda>(l, p). result_row l p) (zip classNames ps))"
    by force
  then show ?thesis using render_results_ok [OF assms(1) nan assms(2)] fm by simp
qed

text \<open>C29. The most-likely line never contradicts the rows: for a probability vector of
  at most ten entries, the page renders its rows and then a top line whose label and
  percentage string are exactly those of one of the rows, and no row's percentage,
  read back, exceeds the top line's.\<close>

theorem top_line_largest_percentage:
  assumes "ps \<noteq> []" "length ps \<le> length classNames" "list_all is_probability ps"
  shows "\<exists>rows name pct. render_results ps = Inr (rows @ [MostLikely name pct]) \<and>
           ResultRow name pct \<in> set rows \<and> (\<forall>r \<in> set rows. shown_percent r \<le> parse_fixed pct)"
proof -
  let ?fm = "first_max ps"
  let ?rows = "map (\<lambda>(l, p). result_row l p) (zip classNames ps)"
  have r: "render_results ps = Inr (?rows @ [MostLikely (js_toUpperCase (classNames ! ?fm))
                   (js_toFixed2 (js_mul_pos (ps ! ?fm) 100))])"
    and fm: "is_first_max ps ?fm"
    and top: "result_row (classNames ! ?fm) (ps ! ?fm) \<in> set ?rows"
    using render_probabilities [OF assms] by simp_all
  obtain q' where q': "ps ! ?fm = Fin q'" "0 \<le> q'" "q' \<le> 1"
    using fm assms(3) by (auto simp: is_first_max_def elim: probability_nth)
  have "shown_percent r \<le> parse_fixed (js_toFixed2 (js_mul_pos (ps ! ?fm) 100))" if rin: "r \<in> set ?rows" for r
  proof -
    obtain l p where lp: "(l, p) \<in> set (zip classNames ps)" "r = result_row l p"
      using rin by auto
    obtain j where j: "j < length ps" "r = result_row l (ps ! j)"
      using lp by (auto simp: in_set_zip)
    obtain q where q: "ps ! j = Fin q" "0 \<le> q" "q \<le> 1" using assms(3) j(1) by (rule probability_nth)
    have "\<not> js_gt (ps ! j) (ps ! ?fm)" using fm j(1) by (simp add: is_first_max_def)
    then have "q \<le> q'" using q q' by simp
    then show ?thesis using j(2) q q' by (simp add: shown_percent_row percent_shown_mono del: js_mul_pos.simps)
  qed
  then show ?thesis using r top by (auto simp: result_row_def)
qed

theorem top_line_largest_percentage_witness:
  "[Fin (1 / 20), Fin (1 / 20), Fin (3 / 5), Fin (1 / 20), Fin (1 / 20),
    Fin (1 / 20), Fin (1 / 20), Fin (1 / 20), Fin (1 / 20), Fin (1 / 20)] \<noteq> [] \<and>
   length [Fin (1 / 20), Fin (1 / 20), Fin (3 / 5), Fin (1 / 20), Fin (1 / 20),
    Fin (1 / 20), Fin (1 / 20), Fin (1 / 20), Fin (1 / 20), Fin (1 / 20)] \<le> length classNames \<and>
   list_all is_probability [Fin (1 / 20), Fin (1 / 20), Fin (3 / 5), Fin (1 / 20), Fin (1 / 20),
    Fin (1 / 20), Fin (1 / 20), Fin (1 / 20), Fin (1 / 20), Fin (1 / 20)] \<and>
   (\<exists>rows name pct. render_results [Fin (1 / 20), Fin (1 / 20), Fin (3 / 5), Fin (1 / 20), Fin (1 / 20),
      Fin (1 / 20), Fin (1 / 20), Fin (1 / 20), Fin (1 / 20), Fin (1 / 20)] = Inr (rows @ [MostLikely name pct]) \<and>
      ResultRow name pct \<in> set rows \<and> (\<forall>r \<in> set rows. shown_percent r \<le> parse_fixed pct))"
proof -
  let ?ps = "[Fin (1 / 20), Fin (1 / 20), Fin (3 / 5), Fin (1 / 20), Fin (1 / 20),
    Fin (1 / 20), Fin (1 / 20), Fin (1 / 20), Fin (1 / 20), Fin (1 / 20)]"
  have h1: "?ps \<noteq> []" and h2: "length ?ps \<le> length classNames" and h3: "list_all is_probability ?ps"
    by simp_all
  show ?thesis using top_line_largest_percentage [OF h1 h2 h3] h1 h2 h3 by blast
qed

text \<open>C30. The percentages the rows show add up to 100 times the sum of the
  probabilities, within \<open>1/200 + 2^-47\<close> per row: for a softmax output summing to 1
  the ten shown percentages sum to 100 within 0.05. The spec's own example vector
  sums to 21/20, so its percentages add up to about 105.\<close>

theorem shown_percentages_sum:
  assumes "ps \<noteq> []" "length ps \<le> length classNames" "list_all is_probability ps"
  shows "\<exists>rows top. render_results ps = Inr (rows @ [top]) \<and>
           \<bar>sum_list (map shown_percent rows) - 100 * sum_list (map prob_value ps)\<bar>
             \<le> of_nat (length ps) * (1 / 200 + 1 / 2 ^ 47)"
proof -
  have r: "render_results ps = Inr (map (\<lambda>(l, p). result_row l p) (zip classNames ps) @
                [MostLikely (js_toUpperCase (classNames ! first_max ps))
                   (js_toFixed2 (js_mul_pos (ps ! first_max ps) 100))])"
    using render_probabilities [OF assms] by simp
  show ?thesis
    using r percentages_sum_error [OF assms(3)] rows_percentages [OF assms(2)] by auto
qed

theorem shown_percentages_sum_witness:
  "[Fin (1 / 20), Fin (1 / 20), Fin (3 / 5), Fin (1 / 20), Fin (1 / 20),
    Fin (1 / 20), Fin (1 / 20), Fin (1 / 20), Fin (1 / 20), Fin (1 / 20)] \<noteq> [] \<and>
   length [Fin (1 / 20), Fin (1 / 20), Fin (3 / 5), Fin (1 / 20), Fin (1 / 20),
    Fin (1 / 20), Fin (1 / 20), Fin (1 / 20), Fin (1 / 20), Fin (1 / 20)] \<le> length classNames \<and>
   list_all is_probability [Fin (1 / 20), Fin (1 / 20), Fin (3 / 5), Fin (1 / 20), Fin (1 / 20),
    Fin (1 / 20), Fin (1 / 20), Fin (1 / 20), Fin (1 / 20), Fin (1 / 20)] \<and>
   sum_list (map prob_value [Fin (1 / 20), Fin (1 / 20), Fin (3 / 5), Fin (1 / 20), Fin (1 / 20),
    Fin (1 / 20), Fin (1 / 20), Fin (1 / 20), Fin (1 / 20), Fin (1 / 20)]) = 21 / 20 \<and>
   (\<exists>rows top. render_results [Fin (1 / 20), Fin (1 / 20), Fin (3 / 5), Fin (1 / 20), Fin (1 / 20),
      Fin (1 / 20), Fin (1 / 20), Fin (1 / 20), Fin (1 / 20), Fin (1 / 20)] = Inr (rows @ [top]) \<and>
      \<bar>sum_list (map shown_percent rows) - 105\<bar> \<le> 10 * (1 / 200 + 1 / 2 ^ 47))"
proof -
  let ?ps = "[Fin (1 / 20), Fin (1 / 20), Fin (3 / 5), Fin (1 / 20), Fin (1 / 20),
    Fin (1 / 20), Fin (1 / 20), Fin (1 / 20), Fin (1 / 20), Fin (1 / 20)]"
  have h1: "?ps \<noteq> []" and h2: "length ?ps \<le> length classNames" and h3: "list_all is_probability ?ps"
    and s: "sum_list (map prob_value ?ps) = 21 / 20"
    by simp_all
  obtain rows top where "render_results ?ps = Inr (rows @ [top])"
    "\<bar>sum_list (map shown_percent rows) - 100 * sum_list (map prob_value ?ps)\<bar>
       \<le> of_nat (length ?ps) * (1 / 200 + 1 / 2 ^ 47)"
    using shown_percentages_sum [OF h1 h2 h3] by blast
  then show ?thesis using h1 h2 h3 s by (intro conjI exI) (simp_all only: s, simp_all)
qed

end
