(* ===== verification/Page.thy ===== *)
theory Page
  imports Preprocess Ranking
begin

text \<open>
  The page as an event-driven state machine (src/script.js, lines 9--22 and 51--125).
  The state is the record \<open>page\<close>: the global \<^verbatim>\<open>model\<close> (line 10), the content of
  \<^verbatim>\<open>resultsDiv\<close>, the \<^verbatim>\<open>src\<close> of \<^verbatim>\<open>uploadedImage\<close>, the console, and the
  callbacks the browser has queued but not yet run (\<open>tasks\<close>): the completion of
  \<^verbatim>\<open>ort.InferenceSession.create\<close>, \<^verbatim>\<open>reader.onloadend\<close>, \<^verbatim>\<open>image.onload\<close> and the
  resumption after \<^verbatim>\<open>await model.run(feeds)\<close>. Each handler is one function, run to
  completion; \<open>page_step\<close> lets the user fire a \<^verbatim>\<open>change\<close> event at any time and
  the browser run any pending callback, in any order.
\<close>

subsection \<open>State\<close>

datatype log_entry = LogInfo string "string list" | LogError string js_error

text \<open>A selected file: its name, whether \<^verbatim>\<open>readAsDataURL\<close> succeeds, and, when the
  data URL decodes as an image, the RGBA bytes that drawing it on the 177\<times>177 canvas
  gives (\<open>None\<close>: the image never fires \<^verbatim>\<open>onload\<close>).\<close>

record upload =
  upload_name :: string
  readable :: bool
  canvas_rgba :: "byte list option"

text \<open>\<^verbatim>\<open>uploadedImage.src\<close>: never set, set to \<^verbatim>\<open>reader.result = null\<close> (a failed
  read), or the data URL of a file.\<close>

datatype img_src = NoSrc | NullSrc | DataURL upload

datatype task =
    ModelCreated
  | ReaderLoadEnd upload
  | ImageLoad "byte list"
  | RunDone "string + tensor_map"

record page =
  model :: "session option"
  results :: "html list"
  uploaded_src :: img_src
  console :: "log_entry list"
  tasks :: "task list"

definition msg_upload :: string where
  "msg_upload = ''Please upload an image to classify.''"

definition msg_classifying :: string where
  "msg_classifying = ''Classifying... Please wait.''"

definition msg_error :: string where
  "msg_error = ''Error classifying image. Please check the console for details.''"

definition msg_not_loaded :: string where
  "msg_not_loaded = ''Model is not loaded. Please refresh the page.''"

text \<open>The page after the script has run: \<^verbatim>\<open>loadModel()\<close> has started the session
  creation, nothing else has happened.\<close>

definition init_page :: page where
  "init_page = \<lparr>model = None, results = [], uploaded_src = NoSrc, console = [], tasks = [ModelCreated]\<rparr>"

subsection \<open>Handlers\<close>

text \<open>The \<^verbatim>\<open>catch\<close> of lines 111--114.\<close>

definition catch_error :: "js_error \<Rightarrow> page \<Rightarrow> page" where
  "catch_error e s =
     s\<lparr>console := console s @ [LogError ''Error classifying image:'' e], results := [Para msg_error]\<rparr>"

text \<open>\<^verbatim>\<open>loadModel\<close> (lines 13--22) after \<^verbatim>\<open>ort.InferenceSession.create\<close> settles.\<close>

definition loadModel_done :: "js_error + session \<Rightarrow> page \<Rightarrow> page" where
  "loadModel_done r s =
     (case r of
        Inr m \<Rightarrow>
          s\<lparr>model := Some m,
            console := console s @ [LogInfo ''Model loaded successfully'' [],
                                    LogInfo ''Input Names:'' (inputNames m),
                                    LogInfo ''Output Names:'' (outputNames m)]\<rparr>
      | Inl e \<Rightarrow> s\<lparr>console := console s @ [LogError ''Error loading model:'' e]\<rparr>)"

text \<open>\<^verbatim>\<open>uploadAndClassifyImage\<close> up to \<^verbatim>\<open>reader.readAsDataURL(file)\<close>
  (lines 52--59 and 118).\<close>

definition uploadAndClassifyImage :: "upload list \<Rightarrow> page \<Rightarrow> page" where
  "uploadAndClassifyImage files s =
     (case files of
        [] \<Rightarrow> s\<lparr>results := [Para msg_upload]\<rparr>
      | file # _ \<Rightarrow> s\<lparr>tasks := tasks s @ [ReaderLoadEnd file]\<rparr>)"

text \<open>\<^verbatim>\<open>reader.onloadend\<close> (lines 62--67): show the data URL and start decoding it.\<close>

definition reader_onloadend :: "upload \<Rightarrow> page \<Rightarrow> page" where
  "reader_onloadend u s =
     s\<lparr>uploaded_src := (if readable u then DataURL u else NullSrc),
       tasks := tasks s @
         (case (readable u, canvas_rgba u) of (True, Some d) \<Rightarrow> [ImageLoad d] | _ \<Rightarrow> [])\<rparr>"

text \<open>\<^verbatim>\<open>image.onload\<close> up to the \<^verbatim>\<open>await\<close> (lines 68--81): show the waiting
  message, preprocess, check the model, and call \<^verbatim>\<open>model.run\<close> with the feeds.\<close>

definition image_onload :: "byte list \<Rightarrow> page \<Rightarrow> page" where
  "image_onload d s =
     (let s1 = s\<lparr>results := [Para msg_classifying]\<rparr> in
      case preprocessImage d of
        Inl e \<Rightarrow> catch_error e s1
      | Inr tensor \<Rightarrow>
          (case model s1 of
             None \<Rightarrow> catch_error (Error msg_not_loaded) s1
           | Some m \<Rightarrow>
               s1\<lparr>tasks := tasks s1 @ [RunDone (run m [(first_name_key (inputNames m), tensor)])]\<rparr>))"

text \<open>The rest of the \<^verbatim>\<open>try\<close> block once \<^verbatim>\<open>model.run\<close> has settled (lines 81--110):
  a rejection is thrown by the \<^verbatim>\<open>await\<close>; \<^verbatim>\<open>output[name]\<close> may be \<open>undefined\<close>, and
  reading \<^verbatim>\<open>.data\<close> from it throws. A throw inside the rendering leaves the
  rows written so far in the box when the \<^verbatim>\<open>catch\<close> runs.\<close>

definition run_continue :: "string + tensor_map \<Rightarrow> page \<Rightarrow> page" where
  "run_continue r s =
     (case r of
        Inl msg \<Rightarrow> catch_error (OrtError msg) s
      | Inr output \<Rightarrow>
          (case model s of
             None \<Rightarrow> catch_error TypeError s
           | Some m \<Rightarrow>
               (case obj_get output (first_name_key (outputNames m)) of
                  None \<Rightarrow> catch_error TypeError s
                | Some t \<Rightarrow>
                    (case render_block (tdata t) of
                       Inl (e, written) \<Rightarrow> catch_error e (s\<lparr>results := written\<rparr>)
                     | Inr out \<Rightarrow> s\<lparr>results := out\<rparr>))))"

subsection \<open>Steps and reachable states\<close>

text \<open>One step: a \<^verbatim>\<open>change\<close> event with the selected files, or any pending callback
  taken out of the queue and run. The outcome of the session creation is chosen by
  the environment.\<close>

inductive page_step :: "page \<Rightarrow> page \<Rightarrow> bool" where
  change: "page_step s (uploadAndClassifyImage files s)"
| load: "tasks s = xs @ ModelCreated # ys \<Longrightarrow>
         page_step s (loadModel_done r (s\<lparr>tasks := xs @ ys\<rparr>))"
| reader: "tasks s = xs @ ReaderLoadEnd u # ys \<Longrightarrow>
           page_step s (reader_onloadend u (s\<lparr>tasks := xs @ ys\<rparr>))"
| image: "tasks s = xs @ ImageLoad d # ys \<Longrightarrow>
          page_step s (image_onload d (s\<lparr>tasks := xs @ ys\<rparr>))"
| resume: "tasks s = xs @ RunDone r # ys \<Longrightarrow>
           page_step s (run_continue r (s\<lparr>tasks := xs @ ys\<rparr>))"

inductive reachable :: "page \<Rightarrow> bool" where
  init: "reachable init_page"
| step: "reachable s \<Longrightarrow> page_step s s' \<Longrightarrow> reachable s'"

text \<open>The same states, indexed by the files the user has selected so far: each
  \<^verbatim>\<open>change\<close> event records \<^verbatim>\<open>imageUpload.files[0]\<close>, if any (the trace of the
  user's events); the browser's callbacks leave it unchanged.\<close>

inductive reachable_after :: "upload list \<Rightarrow> page \<Rightarrow> bool" where
  init: "reachable_after [] init_page"
| change: "reachable_after us s \<Longrightarrow> reachable_after (us @ take 1 files) (uploadAndClassifyImage files s)"
| load: "reachable_after us s \<Longrightarrow> tasks s = xs @ ModelCreated # ys \<Longrightarrow>
         reachable_after us (loadModel_done r (s\<lparr>tasks := xs @ ys\<rparr>))"
| reader: "reachable_after us s \<Longrightarrow> tasks s = xs @ ReaderLoadEnd u # ys \<Longrightarrow>
           reachable_after us (reader_onloadend u (s\<lparr>tasks := xs @ ys\<rparr>))"
| image: "reachable_after us s \<Longrightarrow> tasks s = xs @ ImageLoad d # ys \<Longrightarrow>
          reachable_after us (image_onload d (s\<lparr>tasks := xs @ ys\<rparr>))"
| resume: "reachable_after us s \<Longrightarrow> tasks s = xs @ RunDone r # ys \<Longrightarrow>
           reachable_after us (run_continue r (s\<lparr>tasks := xs @ ys\<rparr>))"

subsection \<open>What the user is shown\<close>

text \<open>The content of the results box when one image is classified without
  interference: the composition of the handlers, as the spec's pipeline describes it.\<close>

definition classify_outcome :: "session \<Rightarrow> byte list \<Rightarrow> html list" where
  "classify_outcome m d =
     (case preprocessImage d of
        Inl e \<Rightarrow> [Para msg_error]
      | Inr t \<Rightarrow>
          (case run m [(first_name_key (inputNames m), t)] of
             Inl msg \<Rightarrow> [Para msg_error]
           | Inr output \<Rightarrow>
               (case obj_get output (first_name_key (outputNames m)) of
                  None \<Rightarrow> [Para msg_error]
                | Some ot \<Rightarrow> (case render_results (tdata ot) of Inl e \<Rightarrow> [Para msg_error] | Inr out \<Rightarrow> out))))"

text \<open>The results box never shows a partial or mixed state: it is empty, one of the
  three messages, or the complete rendering of a valid output vector.\<close>

definition results_wf :: "html list \<Rightarrow> bool" where
  "results_wf r \<longleftrightarrow>
     r = [] \<or> r = [Para msg_upload] \<or> r = [Para msg_classifying] \<or> r = [Para msg_error] \<or>
     (\<exists>ps. ps \<noteq> [] \<and> NaN \<notin> set ps \<and> length ps \<le> length classNames \<and>
           r = display_ranking (zip classNames ps, (classNames ! first_max ps, ps ! first_max ps)))"

text \<open>The invariant: the session creation is pending at most once and never after the
  model is set, and \<^verbatim>\<open>model.run\<close> has only been called with a loaded model.\<close>

definition page_inv :: "page \<Rightarrow> bool" where
  "page_inv s \<longleftrightarrow>
     count_list (tasks s) ModelCreated \<le> 1 \<and>
     (model s \<noteq> None \<longrightarrow> ModelCreated \<notin> set (tasks s)) \<and>
     (\<forall>r. RunDone r \<in> set (tasks s) \<longrightarrow> model s \<noteq> None) \<and>
     results_wf (results s)"

text \<open>The work left in the browser's queue: a pending read still has to decode the
  image and run the model, a pending image load still has to run the model.\<close>

primrec task_weight :: "task \<Rightarrow> nat" where
  "task_weight ModelCreated = 1"
| "task_weight (ReaderLoadEnd u) = 3"
| "task_weight (ImageLoad d) = 2"
| "task_weight (RunDone r) = 1"

definition pending_weight :: "task list \<Rightarrow> nat" where
  "pending_weight ts = sum_list (map task_weight ts)"

text \<open>An image the user has selected: the canvas bytes of a readable file among the
  selected ones.\<close>

definition selected_image :: "upload list \<Rightarrow> byte list \<Rightarrow> bool" where
  "selected_image us d \<longleftrightarrow> (\<exists>u \<in> set us. readable u \<and> canvas_rgba u = Some d)"

text \<open>Where what the page shows comes from, given the files selected so far \<open>us\<close>:
  every pending read is of a selected file, every pending image load decodes a selected
  file, every pending resumption carries the result of \<^verbatim>\<open>model.run\<close> on the
  preprocessed tensor of a selected image under the model's first input name, and the
  results box shows a message or the outcome of classifying a selected image with the
  loaded model.\<close>

definition run_provenance :: "upload list \<Rightarrow> page \<Rightarrow> bool" where
  "run_provenance us s \<longleftrightarrow>
     (\<forall>u. ReaderLoadEnd u \<in> set (tasks s) \<longrightarrow> u \<in> set us) \<and>
     (\<forall>d. ImageLoad d \<in> set (tasks s) \<longrightarrow> selected_image us d) \<and>
     (\<forall>r. RunDone r \<in> set (tasks s) \<longrightarrow>
        (\<exists>m d t. model s = Some m \<and> selected_image us d \<and> preprocessImage d = Inr t \<and>
                 r = run m [(first_name_key (inputNames m), t)]))"

definition shown_provenance :: "upload list \<Rightarrow> page \<Rightarrow> bool" where
  "shown_provenance us s \<longleftrightarrow>
     results s \<in> {[], [Para msg_upload], [Para msg_classifying], [Para msg_error]} \<or>
     (\<exists>m d. model s = Some m \<and> selected_image us d \<and> results s = classify_outcome m d)"

subsection \<open>A scenario\<close>

text \<open>A session whose output is the spec's example vector (0.6 for the third class,
  0.05 for the others), whatever it is fed, and a readable file that decodes to a
  black canvas: the concrete inputs the witnesses below run the page on.\<close>

definition example_probs :: "jsnum list" where
  "example_probs =
     [Fin (5/100), Fin (5/100), Fin (6/10), Fin (5/100), Fin (5/100),
      Fin (5/100), Fin (5/100), Fin (5/100), Fin (5/100), Fin (5/100)]"

definition demo_session :: session where
  "demo_session =
     \<lparr>inputNames = [''input''], outputNames = [''output''],
      run = (\<lambda>feeds. Inr [(''output'', \<lparr>ttype = ''float32'', tdata = example_probs, tdims = [1, 10]\<rparr>)])\<rparr>"

definition demo_upload :: upload where
  "demo_upload = \<lparr>upload_name = ''fruit.png'', readable = True,
                  canvas_rgba = Some (replicate (4 * 177 * 177) 0)\<rparr>"

definition loaded_page :: page where
  "loaded_page = loadModel_done (Inr demo_session) (init_page\<lparr>tasks := []\<rparr>)"

subsection \<open>Lemmas\<close>

lemma catch_error_fields [simp]:
  "results (catch_error e s) = [Para msg_error]" "model (catch_error e s) = model s"
  "tasks (catch_error e s) = tasks s" "uploaded_src (catch_error e s) = uploaded_src s"
  by (simp_all add: catch_error_def)

text \<open>The \<^verbatim>\<open>catch\<close> overwrites whatever the failed rendering wrote: the handler
  ends as if the block had thrown before writing.\<close>

lemma run_continue_alt:
  "run_continue r s =
     (case r of
        Inl msg \<Rightarrow> catch_error (OrtError msg) s
      | Inr output \<Rightarrow>
          (case model s of
             None \<Rightarrow> catch_error TypeError s
           | Some m \<Rightarrow>
               (case obj_get output (first_name_key (outputNames m)) of
                  None \<Rightarrow> catch_error TypeError s
                | Some t \<Rightarrow>
                    (case render_results (tdata t) of
                       Inl e \<Rightarrow> catch_error e s
                     | Inr out \<Rightarrow> s\<lparr>results := out\<rparr>))))"
  by (simp add: run_continue_def render_results_def catch_error_def
           split: sum.split option.split prod.split)

lemma render_results_Inr_wf:
  assumes "render_results ps = Inr out"
  shows "results_wf out"
proof -
  have "ps \<noteq> [] \<and> NaN \<notin> set ps \<and> \<not> 10 < length ps"
    using assms render_results_error_iff_aux [of ps] by auto
  then show ?thesis
    using assms render_results_ok [of ps] unfolding results_wf_def
    by (auto simp: display_ranking_def)
qed

lemma count_list_remove:
  "count_list (xs @ ys) x \<le> count_list (xs @ t # ys) x"
  by simp

lemma page_inv_init: "page_inv init_page"
  by (simp add: page_inv_def init_page_def results_wf_def)

lemma page_inv_change: "page_inv s \<Longrightarrow> page_inv (uploadAndClassifyImage files s)"
  by (auto simp: page_inv_def uploadAndClassifyImage_def results_wf_def split: list.splits)

lemma page_inv_load:
  assumes "page_inv s" "tasks s = xs @ ModelCreated # ys"
  shows "page_inv (loadModel_done r (s\<lparr>tasks := xs @ ys\<rparr>))"
proof -
  have none: "model s = None" using assms by (auto simp: page_inv_def)
  have "count_list (xs @ ys) ModelCreated = 0" using assms by (simp add: page_inv_def)
  then have nc: "ModelCreated \<notin> set (xs @ ys)" by (simp add: count_list_0_iff)
  have nr: "\<forall>r. RunDone r \<notin> set (xs @ ys)" using assms none by (auto simp: page_inv_def)
  have wf: "results_wf (results s)" using assms(1) by (simp add: page_inv_def)
  show ?thesis
    using nc nr wf by (cases r) (auto simp: page_inv_def loadModel_done_def count_list_0_iff)
qed

lemma page_inv_reader:
  assumes "page_inv s" "tasks s = xs @ ReaderLoadEnd u # ys"
  shows "page_inv (reader_onloadend u (s\<lparr>tasks := xs @ ys\<rparr>))"
  using assms by (auto simp: page_inv_def reader_onloadend_def split: option.splits bool.splits)

lemma results_wf_msg_error: "results_wf [Para msg_error]"
  by (simp add: results_wf_def)

lemma image_onload_cases:
  "model (image_onload d s) = model s \<and> results_wf (results (image_onload d s)) \<and>
   (tasks (image_onload d s) = tasks s \<or>
    (model s \<noteq> None \<and> (\<exists>r. tasks (image_onload d s) = tasks s @ [RunDone r])))"
  by (auto simp: image_onload_def Let_def results_wf_def split: sum.splits option.splits)

lemma run_continue_cases:
  "model (run_continue r s) = model s \<and> tasks (run_continue r s) = tasks s \<and>
   uploaded_src (run_continue r s) = uploaded_src s \<and>
   results_wf (results (run_continue r s))"
  by (simp add: run_continue_alt results_wf_msg_error render_results_Inr_wf split: sum.splits option.splits)

lemma page_inv_image:
  assumes "page_inv s" "tasks s = xs @ ImageLoad d # ys"
  shows "page_inv (image_onload d (s\<lparr>tasks := xs @ ys\<rparr>))"
  using assms image_onload_cases [of d "s\<lparr>tasks := xs @ ys\<rparr>"]
  by (auto simp: page_inv_def)

lemma page_inv_resume:
  assumes "page_inv s" "tasks s = xs @ RunDone r # ys"
  shows "page_inv (run_continue r (s\<lparr>tasks := xs @ ys\<rparr>))"
  using assms run_continue_cases [of r "s\<lparr>tasks := xs @ ys\<rparr>"]
  by (auto simp: page_inv_def)

lemma page_step_inv: "page_step s s' \<Longrightarrow> page_inv s \<Longrightarrow> page_inv s'"
  by (induction rule: page_step.induct)
     (simp_all add: page_inv_change page_inv_load page_inv_reader page_inv_image page_inv_resume)

lemma reachable_page_inv: "reachable s \<Longrightarrow> page_inv s"
  by (induction rule: reachable.induct) (auto simp: page_inv_init page_step_inv)


lemma image_onload_loaded:
  assumes "model s = Some m" "preprocessImage d = Inr t"
  shows "image_onload d s =
         s\<lparr>results := [Para msg_classifying],
           tasks := tasks s @ [RunDone (run m [(first_name_key (inputNames m), t)])]\<rparr>"
  using assms by (simp add: image_onload_def)

lemma run_continue_outcome:
  assumes "model s = Some m" "preprocessImage d = Inr t"
  shows "results (run_continue (run m [(first_name_key (inputNames m), t)]) s) = classify_outcome m d"
  using assms
  by (simp add: run_continue_alt classify_outcome_def catch_error_def split: sum.split option.split)

lemma issue_run:
  assumes "model s = Some m" "readable u" "canvas_rgba u = Some d" "preprocessImage d = Inr t"
  shows "page_step\<^sup>*\<^sup>* s
           (s\<lparr>uploaded_src := DataURL u, results := [Para msg_classifying],
              tasks := tasks s @ [RunDone (run m [(first_name_key (inputNames m), t)])]\<rparr>)"
proof -
  let ?s1 = "uploadAndClassifyImage [u] s"
  let ?s2 = "reader_onloadend u (?s1\<lparr>tasks := tasks s\<rparr>)"
  let ?s3 = "image_onload d (?s2\<lparr>tasks := tasks s\<rparr>)"
  have st1: "page_step s ?s1" by (rule page_step.change)
  have t1: "tasks ?s1 = tasks s @ ReaderLoadEnd u # []" by (simp add: uploadAndClassifyImage_def)
  have st2: "page_step ?s1 ?s2"
    using page_step.reader [OF t1] by simp
  have t2: "tasks ?s2 = tasks s @ ImageLoad d # []"
    using assms(2,3) by (simp add: reader_onloadend_def uploadAndClassifyImage_def)
  have st3: "page_step ?s2 ?s3"
    using page_step.image [OF t2] by simp
  have "?s3 = s\<lparr>uploaded_src := DataURL u, results := [Para msg_classifying],
              tasks := tasks s @ [RunDone (run m [(first_name_key (inputNames m), t)])]\<rparr>"
    using assms by (simp add: image_onload_loaded reader_onloadend_def uploadAndClassifyImage_def)
  with st1 st2 st3 show ?thesis
    by (metis converse_rtranclp_into_rtranclp rtranclp.rtrancl_refl)
qed

lemma classify_sequential_aux:
  fixes u :: upload
  assumes "model s = Some m" "readable u" "canvas_rgba u = Some d"
  shows "\<exists>s'. page_step\<^sup>*\<^sup>* s s' \<and> uploaded_src s' = DataURL u \<and> results s' = classify_outcome m d
              \<and> tasks s' = tasks s \<and> model s' = Some m"
proof -
  obtain t where t: "preprocessImage d = Inr t"
    using preprocessImage_total_aux [of d] by blast
  let ?R = "run m [(first_name_key (inputNames m), t)]"
  let ?s3 = "s\<lparr>uploaded_src := DataURL u, results := [Para msg_classifying], tasks := tasks s @ [RunDone ?R]\<rparr>"
  let ?s4 = "run_continue ?R (?s3\<lparr>tasks := tasks s\<rparr>)"
  have a: "page_step\<^sup>*\<^sup>* s ?s3" using issue_run [OF assms t] .
  have t3: "tasks ?s3 = tasks s @ RunDone ?R # []" by simp
  have b: "page_step ?s3 ?s4" using page_step.resume [OF t3] by simp
  have c: "results ?s4 = classify_outcome m d" "uploaded_src ?s4 = DataURL u" "tasks ?s4 = tasks s"
      "model ?s4 = Some m"
    using run_continue_outcome [of "?s3\<lparr>tasks := tasks s\<rparr>" m d t] assms(1) t
      run_continue_cases [of ?R "?s3\<lparr>tasks := tasks s\<rparr>"]
    by simp_all
  show ?thesis using a b c by (meson rtranclp.rtrancl_into_rtrancl)
qed


lemma stale_result_race_aux:
  fixes u1 u2 :: upload
  assumes "model s = Some m" "readable u1" "canvas_rgba u1 = Some d1"
    "readable u2" "canvas_rgba u2 = Some d2"
  shows "\<exists>s'. page_step\<^sup>*\<^sup>* s s' \<and> uploaded_src s' = DataURL u2 \<and> results s' = classify_outcome m d1
              \<and> tasks s' = tasks s"
proof -
  obtain t1 where t1: "preprocessImage d1 = Inr t1" using preprocessImage_total_aux [of d1] by blast
  obtain t2 where t2: "preprocessImage d2 = Inr t2" using preprocessImage_total_aux [of d2] by blast
  let ?R1 = "run m [(first_name_key (inputNames m), t1)]"
  let ?R2 = "run m [(first_name_key (inputNames m), t2)]"
  let ?s3 = "s\<lparr>uploaded_src := DataURL u1, results := [Para msg_classifying], tasks := tasks s @ [RunDone ?R1]\<rparr>"
  let ?s6 = "?s3\<lparr>uploaded_src := DataURL u2, results := [Para msg_classifying],
               tasks := tasks ?s3 @ [RunDone ?R2]\<rparr>"
  let ?s7 = "run_continue ?R2 (?s6\<lparr>tasks := tasks s @ [RunDone ?R1]\<rparr>)"
  let ?s8 = "run_continue ?R1 (?s7\<lparr>tasks := tasks s\<rparr>)"
  have a: "page_step\<^sup>*\<^sup>* s ?s3" using issue_run [OF assms(1-3) t1] .
  have m3: "model ?s3 = Some m" using assms(1) by simp
  have b: "page_step\<^sup>*\<^sup>* ?s3 ?s6" using issue_run [OF m3 assms(4,5) t2] .
  have t6: "tasks ?s6 = (tasks s @ [RunDone ?R1]) @ RunDone ?R2 # []" by simp
  have c: "page_step ?s6 ?s7" using page_step.resume [OF t6] by simp
  have f7: "model ?s7 = Some m" "tasks ?s7 = tasks s @ RunDone ?R1 # []" "uploaded_src ?s7 = DataURL u2"
    using run_continue_cases [of ?R2 "?s6\<lparr>tasks := tasks s @ [RunDone ?R1]\<rparr>"] assms(1) by simp_all
  have d: "page_step ?s7 ?s8" using page_step.resume [OF f7(2)] by simp
  have e: "results ?s8 = classify_outcome m d1" "uploaded_src ?s8 = DataURL u2" "tasks ?s8 = tasks s"
    using run_continue_outcome [of "?s7\<lparr>tasks := tasks s\<rparr>" m d1 t1] f7 t1
      run_continue_cases [of ?R1 "?s7\<lparr>tasks := tasks s\<rparr>"]
    by simp_all
  have "page_step\<^sup>*\<^sup>* s ?s8"
    using a b c d by (meson rtranclp.rtrancl_into_rtrancl rtranclp_trans)
  with e show ?thesis by blast
qed


lemma reachable_steps: "page_step\<^sup>*\<^sup>* s s' \<Longrightarrow> reachable s \<Longrightarrow> reachable s'"
  by (induction rule: rtranclp_induct) (auto intro: reachable.step)

lemma reachable_loaded_page: "reachable loaded_page"
proof -
  have "tasks init_page = [] @ ModelCreated # []" by (simp add: init_page_def)
  then have "page_step init_page (loadModel_done (Inr demo_session) (init_page\<lparr>tasks := [] @ []\<rparr>))"
    by (rule page_step.load)
  then show ?thesis unfolding loaded_page_def by (auto intro: reachable.step reachable.init)
qed

lemma loaded_page_fields [simp]:
  "model loaded_page = Some demo_session" "tasks loaded_page = []"
  by (simp_all add: loaded_page_def loadModel_done_def init_page_def)

lemma model_step_loaded:
  assumes "page_inv s" "page_step s s'" "model s = Some m"
  shows "model s' = Some m"
  using assms(2,1,3)
proof (induction rule: page_step.induct)
  case (change s files)
  then show ?case by (simp add: uploadAndClassifyImage_def split: list.split)
next
  case (load s xs ys r)
  then show ?case by (simp add: page_inv_def)
next
  case (reader s xs u ys)
  then show ?case by (simp add: reader_onloadend_def)
next
  case (image s xs d ys)
  then show ?case using image_onload_cases [of d "s\<lparr>tasks := xs @ ys\<rparr>"] by simp
next
  case (resume s xs r ys)
  then show ?case using run_continue_cases [of r "s\<lparr>tasks := xs @ ys\<rparr>"] by simp
qed

lemma page_step_no_load:
  assumes "page_step s s'" "ModelCreated \<notin> set (tasks s)"
  shows "ModelCreated \<notin> set (tasks s') \<and> model s' = model s"
  using assms
proof (induction rule: page_step.induct)
  case (change s files)
  then show ?case by (simp add: uploadAndClassifyImage_def split: list.split)
next
  case (load s xs ys r)
  then show ?case by simp
next
  case (reader s xs u ys)
  then show ?case by (simp add: reader_onloadend_def split: option.split bool.split)
next
  case (image s xs d ys)
  then show ?case using image_onload_cases [of d "s\<lparr>tasks := xs @ ys\<rparr>"] by auto
next
  case (resume s xs r ys)
  then show ?case using run_continue_cases [of r "s\<lparr>tasks := xs @ ys\<rparr>"] by simp
qed

lemma steps_no_load:
  "page_step\<^sup>*\<^sup>* s s' \<Longrightarrow> ModelCreated \<notin> set (tasks s) \<Longrightarrow>
   ModelCreated \<notin> set (tasks s') \<and> model s' = model s"
  by (induction rule: rtranclp_induct) (auto dest: page_step_no_load)

subsection \<open>Properties of the page\<close>

text \<open>C12. In every reachable state of the page the results box shows nothing, one of
  the three messages, or the complete rendering of a valid output vector: the rows a
  failing rendering has already appended (ten rows before the eleventh output, or all
  rows before the top-1 line of a NaN-holding or empty output) are always replaced by
  the error message of the \<^verbatim>\<open>catch\<close>, never left on screen.\<close>

theorem reachable_results_wf: "reachable s \<Longrightarrow> results_wf (results s)"
  using reachable_page_inv by (simp add: page_inv_def)

theorem reachable_results_wf_witness: "reachable init_page \<and> results_wf (results init_page)"
proof -
  have h: "reachable init_page" by (rule reachable.init)
  show ?thesis by (intro conjI h reachable_results_wf [OF h])
qed

text \<open>C13. The global \<^verbatim>\<open>model\<close> is written at most once: from a reachable state in
  which it is set, no step changes it.\<close>

theorem model_written_once:
  "reachable s \<Longrightarrow> page_step s s' \<Longrightarrow> model s = Some m \<Longrightarrow> model s' = Some m"
  using reachable_page_inv model_step_loaded by blast

theorem model_written_once_witness:
  "reachable loaded_page \<and> page_step loaded_page (uploadAndClassifyImage [] loaded_page) \<and>
   model loaded_page = Some demo_session \<and>
   model (uploadAndClassifyImage [] loaded_page) = Some demo_session"
proof -
  have h1: "reachable loaded_page" by (rule reachable_loaded_page)
  have h2: "page_step loaded_page (uploadAndClassifyImage [] loaded_page)" by (rule page_step.change)
  have h3: "model loaded_page = Some demo_session" by simp
  show ?thesis by (intro conjI h1 h2 h3 model_written_once [OF h1 h2 h3])
qed

text \<open>C14. Classifying without a loaded model fails with the "Model is not loaded"
  error: the error message is shown, the error is logged, and no run is started (the
  callback queue is unchanged).\<close>

theorem image_onload_without_model:
  assumes "model s = None"
  shows "results (image_onload d s) = [Para msg_error] \<and> tasks (image_onload d s) = tasks s \<and>
         console (image_onload d s) = console s @ [LogError ''Error classifying image:'' (Error msg_not_loaded)]"
proof -
  obtain t where "preprocessImage d = Inr t" using preprocessImage_total_aux [of d] by blast
  with assms show ?thesis by (simp add: image_onload_def catch_error_def)
qed

theorem image_onload_without_model_witness:
  "model init_page = None \<and>
   results (image_onload [] init_page) = [Para msg_error] \<and> tasks (image_onload [] init_page) = tasks init_page \<and>
   console (image_onload [] init_page) =
     console init_page @ [LogError ''Error classifying image:'' (Error msg_not_loaded)]"
proof -
  have h: "model init_page = None" by (simp add: init_page_def)
  show ?thesis by (intro conjI h image_onload_without_model [OF h])
qed

text \<open>C15. With the model loaded, selecting a readable image file leads, when no other
  event interferes, to a state that shows the image and the outcome of the spec's
  pipeline (preprocess, run, rank and render) and has no work left pending.\<close>

theorem classify_sequential:
  fixes u :: upload
  assumes "model s = Some m" "readable u" "canvas_rgba u = Some d"
  shows "\<exists>s'. page_step\<^sup>*\<^sup>* s s' \<and> uploaded_src s' = DataURL u \<and> results s' = classify_outcome m d
              \<and> tasks s' = tasks s \<and> model s' = Some m"
  using assms by (rule classify_sequential_aux)

theorem classify_sequential_witness:
  "\<exists>s'. page_step\<^sup>*\<^sup>* loaded_page s' \<and> uploaded_src s' = DataURL demo_upload \<and>
        results s' = classify_outcome demo_session (replicate (4 * 177 * 177) 0) \<and>
        tasks s' = tasks loaded_page \<and> model s' = Some demo_session"
proof -
  have h1: "model loaded_page = Some demo_session" by simp
  have h2: "readable demo_upload" by (simp add: demo_upload_def)
  have h3: "canvas_rgba demo_upload = Some (replicate (4 * 177 * 177) 0)" by (simp add: demo_upload_def)
  show ?thesis by (rule classify_sequential [OF h1 h2 h3])
qed

text \<open>C16. Stale results (spec section 5): with two uploads in flight, the browser may
  complete the first run after the second, so that once both requests are done the
  page shows the second image next to the classification of the first.\<close>

theorem stale_result_race:
  fixes u1 u2 :: upload
  assumes "model s = Some m" "readable u1" "canvas_rgba u1 = Some d1"
    "readable u2" "canvas_rgba u2 = Some d2"
  shows "\<exists>s'. page_step\<^sup>*\<^sup>* s s' \<and> uploaded_src s' = DataURL u2 \<and> results s' = classify_outcome m d1
              \<and> tasks s' = tasks s"
  using assms by (rule stale_result_race_aux)

theorem stale_result_race_witness:
  "\<exists>s'. page_step\<^sup>*\<^sup>* loaded_page s' \<and>
        uploaded_src s' = DataURL (demo_upload\<lparr>upload_name := ''second.png'',
                                     canvas_rgba := Some (replicate (4 * 177 * 177) 255)\<rparr>) \<and>
        results s' = classify_outcome demo_session (replicate (4 * 177 * 177) 0) \<and>
        tasks s' = tasks loaded_page"
proof -
  have h1: "model loaded_page = Some demo_session" by simp
  have h2: "readable demo_upload" by (simp add: demo_upload_def)
  have h3: "canvas_rgba demo_upload = Some (replicate (4 * 177 * 177) 0)" by (simp add: demo_upload_def)
  have h4: "readable (demo_upload\<lparr>upload_name := ''second.png'',
                                     canvas_rgba := Some (replicate (4 * 177 * 177) 255)\<rparr>)"
    by (simp add: demo_upload_def)
  have h5: "canvas_rgba (demo_upload\<lparr>upload_name := ''second.png'',
                                     canvas_rgba := Some (replicate (4 * 177 * 177) 255)\<rparr>) =
            Some (replicate (4 * 177 * 177) 255)"
    by simp
  show ?thesis by (rule stale_result_race [OF h1 h2 h3 h4 h5])
qed

text \<open>C17. A failed model load is permanent: once the session creation has settled
  without setting the model, no sequence of events sets it, and every later image
  ends with the error message.\<close>

theorem failed_load_permanent:
  assumes "ModelCreated \<notin> set (tasks s)" "model s = None" "page_step\<^sup>*\<^sup>* s s'"
  shows "model s' = None \<and> results (image_onload d s') = [Para msg_error]"
proof -
  have "model s' = None" using steps_no_load [OF assms(3,1)] assms(2) by simp
  moreover obtain t where "preprocessImage d = Inr t" using preprocessImage_total_aux [of d] by blast
  ultimately show ?thesis by (simp add: image_onload_def)
qed

theorem failed_load_permanent_witness:
  "model (loadModel_done (Inl (OrtError ''failed to fetch'')) (init_page\<lparr>tasks := []\<rparr>)) = None \<and>
   results (image_onload [] (loadModel_done (Inl (OrtError ''failed to fetch'')) (init_page\<lparr>tasks := []\<rparr>)))
     = [Para msg_error]"
proof -
  let ?s = "loadModel_done (Inl (OrtError ''failed to fetch'')) (init_page\<lparr>tasks := []\<rparr>)"
  have h1: "ModelCreated \<notin> set (tasks ?s)" by (simp add: loadModel_done_def)
  have h2: "model ?s = None" by (simp add: loadModel_done_def init_page_def)
  have h3: "page_step\<^sup>*\<^sup>* ?s ?s" by (rule rtranclp.rtrancl_refl)
  show ?thesis using failed_load_permanent [OF h1 h2 h3, of "[]"] by simp
qed

text \<open>C18. A rejected \<^verbatim>\<open>model.run\<close> ends the attempt: the error message replaces
  the results and the rejection is logged; no partial result is shown.\<close>

theorem run_rejected_shows_error:
  "results (run_continue (Inl msg) s) = [Para msg_error] \<and>
   console (run_continue (Inl msg) s) = console s @ [LogError ''Error classifying image:'' (OrtError msg)]"
  by (simp add: run_continue_alt catch_error_def)

text \<open>C19. When the output has no tensor under the model's first output name, reading
  \<^verbatim>\<open>.data\<close> of \<open>undefined\<close> throws a \<open>TypeError\<close>, which is logged and replaced by
  the error message.\<close>

theorem missing_output_shows_error:
  assumes "model s = Some m" "obj_get out (first_name_key (outputNames m)) = None"
  shows "results (run_continue (Inr out) s) = [Para msg_error] \<and>
         console (run_continue (Inr out) s) = console s @ [LogError ''Error classifying image:'' TypeError]"
  using assms by (simp add: run_continue_alt catch_error_def)

theorem missing_output_shows_error_witness:
  "model loaded_page = Some demo_session \<and>
   obj_get [(''logits'', \<lparr>ttype = ''float32'', tdata = [], tdims = [0]\<rparr>)]
     (first_name_key (outputNames demo_session)) = None \<and>
   results (run_continue (Inr [(''logits'', \<lparr>ttype = ''float32'', tdata = [], tdims = [0]\<rparr>)]) loaded_page)
     = [Para msg_error] \<and>
   console (run_continue (Inr [(''logits'', \<lparr>ttype = ''float32'', tdata = [], tdims = [0]\<rparr>)]) loaded_page)
     = console loaded_page @ [LogError ''Error classifying image:'' TypeError]"
proof -
  have h1: "model loaded_page = Some demo_session" by simp
  have h2: "obj_get [(''logits'', \<lparr>ttype = ''float32'', tdata = [], tdims = [0]\<rparr>)]
     (first_name_key (outputNames demo_session)) = None"
    by (simp add: obj_get_def first_name_key_def demo_session_def)
  show ?thesis by (intro conjI h1 h2 missing_output_shows_error [OF h1 h2])
qed


subsection \<open>The queue drains\<close>

lemma pending_weight_split [simp]:
  "pending_weight (xs @ ys) = pending_weight xs + pending_weight ys"
  "pending_weight (t # ys) = task_weight t + pending_weight ys"
  "pending_weight [] = 0"
  by (simp_all add: pending_weight_def)

lemma loadModel_done_tasks [simp]: "tasks (loadModel_done r s) = tasks s"
  by (simp add: loadModel_done_def split: sum.split)

lemma reader_onloadend_weight: "pending_weight (tasks (reader_onloadend u s)) \<le> pending_weight (tasks s) + 2"
  by (simp add: reader_onloadend_def split: bool.split option.split)

lemma image_onload_weight: "pending_weight (tasks (image_onload d s)) \<le> pending_weight (tasks s) + 1"
  using image_onload_cases [of d s] by auto

lemma callback_exists:
  assumes "tasks s \<noteq> []"
  shows "\<exists>s'. page_step s s' \<and> pending_weight (tasks s') < pending_weight (tasks s)"
proof -
  obtain t ys where ts: "tasks s = [] @ t # ys" using assms by (cases "tasks s") auto
  show ?thesis
  proof (cases t)
    case ModelCreated
    then show ?thesis using page_step.load [OF ts [unfolded ModelCreated], of "Inl TypeError"] ts by fastforce
  next
    case (ReaderLoadEnd u)
    then show ?thesis using page_step.reader [OF ts [unfolded ReaderLoadEnd]] ts
        reader_onloadend_weight [of u "s\<lparr>tasks := [] @ ys\<rparr>"] by fastforce
  next
    case (ImageLoad d)
    then show ?thesis using page_step.image [OF ts [unfolded ImageLoad]] ts
        image_onload_weight [of d "s\<lparr>tasks := [] @ ys\<rparr>"] by fastforce
  next
    case (RunDone r)
    then show ?thesis using page_step.resume [OF ts [unfolded RunDone]] ts
        run_continue_cases [of r "s\<lparr>tasks := [] @ ys\<rparr>"] by fastforce
  qed
qed

lemma drain_queue: "\<exists>s'. page_step\<^sup>*\<^sup>* s s' \<and> tasks s' = []"
proof (induction "pending_weight (tasks s)" arbitrary: s rule: less_induct)
  case less
  show ?case
  proof (cases "tasks s = []")
    case True
    then show ?thesis by blast
  next
    case False
    then obtain s1 where st: "page_step s s1" and lt: "pending_weight (tasks s1) < pending_weight (tasks s)"
      using callback_exists by blast
    obtain s' where "page_step\<^sup>*\<^sup>* s1 s'" "tasks s' = []" using less [OF lt] by blast
    then show ?thesis using st by (meson converse_rtranclp_into_rtranclp)
  qed
qed

text \<open>C20. Every callback the browser runs strictly decreases the work left in its
  queue (a read adds at most an image load, an image load at most a run, the others
  nothing); only the user's \<^verbatim>\<open>change\<close> event adds work. So without user events no
  schedule of callbacks runs forever.\<close>

theorem callback_step_decreases:
  assumes "page_step s s'"
  shows "(\<exists>files. s' = uploadAndClassifyImage files s) \<or> pending_weight (tasks s') < pending_weight (tasks s)"
  using assms
proof (cases rule: page_step.cases)
  case (reader xs u ys)
  then show ?thesis using reader_onloadend_weight [of u "s\<lparr>tasks := xs @ ys\<rparr>"] by simp
next
  case (image xs d ys)
  then show ?thesis using image_onload_weight [of d "s\<lparr>tasks := xs @ ys\<rparr>"] by simp
next
  case (resume xs r ys)
  then show ?thesis using run_continue_cases [of r "s\<lparr>tasks := xs @ ys\<rparr>"] by simp
qed auto

theorem callback_step_decreases_witness:
  "page_step init_page (loadModel_done (Inl TypeError) (init_page\<lparr>tasks := []\<rparr>)) \<and>
   ((\<exists>files. loadModel_done (Inl TypeError) (init_page\<lparr>tasks := []\<rparr>) = uploadAndClassifyImage files init_page) \<or>
    pending_weight (tasks (loadModel_done (Inl TypeError) (init_page\<lparr>tasks := []\<rparr>))) <
    pending_weight (tasks init_page))"
proof -
  have "tasks init_page = [] @ ModelCreated # []" by (simp add: init_page_def)
  then have h: "page_step init_page (loadModel_done (Inl TypeError) (init_page\<lparr>tasks := []\<rparr>))"
    using page_step.load [of init_page "[]" "[]" "Inl TypeError"] by simp
  show ?thesis by (intro conjI h callback_step_decreases [OF h])
qed

text \<open>C21. From any state of the page, the browser can run the pending callbacks until
  none is left: the page always quiesces.\<close>

theorem callbacks_quiesce: "\<exists>s'. page_step\<^sup>*\<^sup>* s s' \<and> tasks s' = []"
  by (rule drain_queue)


subsection \<open>Provenance of what is shown\<close>

lemma reachable_after_reachable: "reachable_after us s \<Longrightarrow> reachable s"
  by (induction rule: reachable_after.induct) (auto intro: reachable.intros page_step.intros)

lemma reachable_ex_after: "reachable s \<Longrightarrow> \<exists>us. reachable_after us s"
proof (induction rule: reachable.induct)
  case init
  then show ?case by (auto intro: reachable_after.init)
next
  case (step s s')
  then obtain us where us: "reachable_after us s" by blast
  from step.hyps(2) show ?case
    by (cases rule: page_step.cases) (use us in \<open>auto intro: reachable_after.intros\<close>)
qed

lemma selected_image_append: "selected_image us d \<Longrightarrow> selected_image (us @ vs) d"
  by (auto simp: selected_image_def)

lemma provenance_init: "run_provenance [] init_page \<and> shown_provenance [] init_page"
  by (simp add: run_provenance_def shown_provenance_def init_page_def)

lemma provenance_mono:
  "run_provenance us s \<Longrightarrow> run_provenance (us @ vs) s"
  "shown_provenance us s \<Longrightarrow> shown_provenance (us @ vs) s"
  unfolding run_provenance_def shown_provenance_def by (fastforce intro: selected_image_append)+

lemma provenance_change:
  assumes "run_provenance us s" "shown_provenance us s"
  shows "run_provenance (us @ take 1 files) (uploadAndClassifyImage files s) \<and>
         shown_provenance (us @ take 1 files) (uploadAndClassifyImage files s)"
proof (cases files)
  case Nil
  then show ?thesis using assms by (simp add: run_provenance_def shown_provenance_def uploadAndClassifyImage_def)
next
  case (Cons f fs)
  have "run_provenance (us @ [f]) s" "shown_provenance (us @ [f]) s"
    using assms by (simp_all add: provenance_mono)
  then show ?thesis using Cons
    by (simp add: run_provenance_def shown_provenance_def uploadAndClassifyImage_def)
qed

lemma provenance_load:
  assumes "page_inv s" "run_provenance us s" "shown_provenance us s" "tasks s = xs @ ModelCreated # ys"
  shows "run_provenance us (loadModel_done r (s\<lparr>tasks := xs @ ys\<rparr>)) \<and>
         shown_provenance us (loadModel_done r (s\<lparr>tasks := xs @ ys\<rparr>))"
proof -
  have none: "model s = None" using assms(1,4) by (auto simp: page_inv_def)
  have nr: "\<forall>r. RunDone r \<notin> set (xs @ ys)" using assms(1,4) none by (auto simp: page_inv_def)
  have msg: "results s \<in> {[], [Para msg_upload], [Para msg_classifying], [Para msg_error]}"
    using assms(3) none by (simp add: shown_provenance_def)
  have "(\<forall>u. ReaderLoadEnd u \<in> set (xs @ ys) \<longrightarrow> u \<in> set us) \<and>
        (\<forall>d. ImageLoad d \<in> set (xs @ ys) \<longrightarrow> selected_image us d)"
    using assms(2,4) by (auto simp: run_provenance_def)
  then show ?thesis using nr msg
    by (cases r) (simp_all add: run_provenance_def shown_provenance_def loadModel_done_def)
qed

lemma provenance_reader:
  assumes "run_provenance us s" "shown_provenance us s" "tasks s = xs @ ReaderLoadEnd u # ys"
  shows "run_provenance us (reader_onloadend u (s\<lparr>tasks := xs @ ys\<rparr>)) \<and>
         shown_provenance us (reader_onloadend u (s\<lparr>tasks := xs @ ys\<rparr>))"
proof -
  have "u \<in> set us" using assms(1,3) by (simp add: run_provenance_def)
  then show ?thesis using assms
    by (auto simp: run_provenance_def shown_provenance_def reader_onloadend_def selected_image_def
             split: bool.splits option.splits)
qed

lemma provenance_image:
  assumes "run_provenance us s" "tasks s = xs @ ImageLoad d # ys"
  shows "run_provenance us (image_onload d (s\<lparr>tasks := xs @ ys\<rparr>)) \<and>
         shown_provenance us (image_onload d (s\<lparr>tasks := xs @ ys\<rparr>))"
proof -
  have "selected_image us d" using assms by (simp add: run_provenance_def)
  then show ?thesis using assms
    by (auto simp: run_provenance_def shown_provenance_def image_onload_def Let_def catch_error_def
             split: sum.splits option.splits)
qed

lemma provenance_resume:
  assumes "run_provenance us s" "tasks s = xs @ RunDone r # ys"
  shows "run_provenance us (run_continue r (s\<lparr>tasks := xs @ ys\<rparr>)) \<and>
         shown_provenance us (run_continue r (s\<lparr>tasks := xs @ ys\<rparr>))"
proof -
  obtain m d t where m: "model s = Some m" and sel: "selected_image us d" and t: "preprocessImage d = Inr t"
    and r: "r = run m [(first_name_key (inputNames m), t)]"
    using assms by (auto simp: run_provenance_def)
  have "results (run_continue r (s\<lparr>tasks := xs @ ys\<rparr>)) = classify_outcome m d"
    using run_continue_outcome [of "s\<lparr>tasks := xs @ ys\<rparr>" m d t] m t r by simp
  moreover have "run_provenance us (run_continue r (s\<lparr>tasks := xs @ ys\<rparr>))"
    using assms(1,2) run_continue_cases [of r "s\<lparr>tasks := xs @ ys\<rparr>"] by (auto simp: run_provenance_def)
  ultimately show ?thesis
    using m sel run_continue_cases [of r "s\<lparr>tasks := xs @ ys\<rparr>"] by (auto simp: shown_provenance_def)
qed

lemma reachable_provenance: "reachable_after us s \<Longrightarrow> run_provenance us s \<and> shown_provenance us s"
proof (induction rule: reachable_after.induct)
  case init
  then show ?case by (rule provenance_init)
next
  case (change us s files)
  then show ?case using provenance_change by blast
next
  case (load us s xs ys r)
  have "page_inv s" using load.hyps(1) by (intro reachable_page_inv reachable_after_reachable)
  then show ?case using load provenance_load by blast
next
  case (reader us s xs u ys)
  then show ?case using provenance_reader by blast
next
  case (image us s xs d ys)
  then show ?case using provenance_image by blast
next
  case (resume us s xs r ys)
  then show ?case using provenance_resume by blast
qed

text \<open>One upload classified without interference, in the indexed reachability: the
  selected file is recorded and its image is what the page ends up showing.\<close>

lemma classify_after:
  assumes "reachable_after us s" "model s = Some m" "readable u" "canvas_rgba u = Some d"
  shows "\<exists>s'. reachable_after (us @ [u]) s' \<and> results s' = classify_outcome m d"
proof -
  obtain t where t: "preprocessImage d = Inr t"
    using preprocessImage_total_aux [of d] by blast
  let ?R = "run m [(first_name_key (inputNames m), t)]"
  let ?s1 = "uploadAndClassifyImage [u] s"
  let ?s2 = "reader_onloadend u (?s1\<lparr>tasks := tasks s\<rparr>)"
  let ?s3 = "image_onload d (?s2\<lparr>tasks := tasks s\<rparr>)"
  let ?s4 = "run_continue ?R (?s3\<lparr>tasks := tasks s\<rparr>)"
  have r1: "reachable_after (us @ [u]) ?s1"
    using reachable_after.change [OF assms(1), of "[u]"] by simp
  have t1: "tasks ?s1 = tasks s @ ReaderLoadEnd u # []" by (simp add: uploadAndClassifyImage_def)
  have r2: "reachable_after (us @ [u]) ?s2" using reachable_after.reader [OF r1 t1] by simp
  have t2: "tasks ?s2 = tasks s @ ImageLoad d # []"
    using assms(3,4) by (simp add: reader_onloadend_def uploadAndClassifyImage_def)
  have r3: "reachable_after (us @ [u]) ?s3" using reachable_after.image [OF r2 t2] by simp
  have m3: "model ?s3 = Some m" "tasks ?s3 = tasks s @ RunDone ?R # []"
    using assms(2) t by (simp_all add: image_onload_loaded reader_onloadend_def uploadAndClassifyImage_def)
  have r4: "reachable_after (us @ [u]) ?s4" using reachable_after.resume [OF r3 m3(2)] by simp
  have "results ?s4 = classify_outcome m d"
    using run_continue_outcome [of "?s3\<lparr>tasks := tasks s\<rparr>" m d t] m3(1) t by simp
  then show ?thesis using r4 by blast
qed

text \<open>C22. Whatever the page shows is a message or the complete outcome of classifying,
  with the loaded model, an image the user has actually selected (preprocess, run under
  the first input name, read the first output name, render): the display never shows
  the output for an image that was not uploaded, nor mixes the tensor of one image
  with the output of another run or of another model.\<close>

theorem reachable_shows_classification:
  assumes "reachable_after us s"
  shows "results s \<in> {[], [Para msg_upload], [Para msg_classifying], [Para msg_error]} \<or>
         (\<exists>m u d. model s = Some m \<and> u \<in> set us \<and> readable u \<and> canvas_rgba u = Some d \<and>
                  results s = classify_outcome m d)"
  using reachable_provenance [OF assms] by (auto simp: shown_provenance_def selected_image_def)

theorem reachable_shows_classification_witness:
  "\<exists>s. reachable_after [demo_upload] s \<and>
       results s = classify_outcome demo_session (replicate (4 * 177 * 177) 0) \<and>
       (results s \<in> {[], [Para msg_upload], [Para msg_classifying], [Para msg_error]} \<or>
        (\<exists>m u d. model s = Some m \<and> u \<in> set [demo_upload] \<and> readable u \<and> canvas_rgba u = Some d \<and>
                 results s = classify_outcome m d))"
proof -
  have t0: "tasks init_page = [] @ ModelCreated # []" by (simp add: init_page_def)
  have l: "reachable_after [] loaded_page"
    using reachable_after.load [OF reachable_after.init t0, of "Inr demo_session"]
    by (simp add: loaded_page_def)
  have h2: "readable demo_upload" by (simp add: demo_upload_def)
  have h3: "canvas_rgba demo_upload = Some (replicate (4 * 177 * 177) 0)" by (simp add: demo_upload_def)
  obtain s where h: "reachable_after [demo_upload] s"
    and r: "results s = classify_outcome demo_session (replicate (4 * 177 * 177) 0)"
    using classify_after [OF l _ h2 h3] by auto
  show ?thesis using h r reachable_shows_classification [OF h] by blast
qed


subsection \<open>Errors are logged and shown\<close>

lemma catch_error_console: "console (catch_error e s) = console s @ [LogError ''Error classifying image:'' e]"
  by (simp add: catch_error_def)

lemma image_onload_console:
  "console (image_onload d s) = console s \<or>
   (\<exists>e. console (image_onload d s) = console s @ [LogError ''Error classifying image:'' e] \<and>
        results (image_onload d s) = [Para msg_error])"
  by (auto simp: image_onload_def Let_def catch_error_console split: sum.split option.split)

lemma run_continue_console:
  "console (run_continue r s) = console s \<or>
   (\<exists>e. console (run_continue r s) = console s @ [LogError ''Error classifying image:'' e] \<and>
        results (run_continue r s) = [Para msg_error])"
  by (auto simp: run_continue_alt catch_error_console split: sum.split option.split)

text \<open>C24. Errors are logged and surfaced together (spec section 7): every step only
  appends to the console, and a step that logs a classification error leaves the
  generic error message in the results box.\<close>

theorem step_errors_logged_and_shown:
  assumes "page_step s s'"
  shows "\<exists>new. console s' = console s @ new \<and>
           (\<forall>e. LogError ''Error classifying image:'' e \<in> set new \<longrightarrow> results s' = [Para msg_error])"
  using assms
proof (cases rule: page_step.cases)
  case (change files)
  then show ?thesis by (auto simp: uploadAndClassifyImage_def split: list.split)
next
  case (load xs ys r)
  then show ?thesis by (auto simp: loadModel_done_def split: sum.split)
next
  case (reader xs u ys)
  then show ?thesis by (auto simp: reader_onloadend_def)
next
  case (image xs d ys)
  then show ?thesis using image_onload_console [of d "s\<lparr>tasks := xs @ ys\<rparr>"] by force
next
  case (resume xs r ys)
  then show ?thesis using run_continue_console [of r "s\<lparr>tasks := xs @ ys\<rparr>"] by force
qed

theorem step_errors_logged_and_shown_witness:
  "page_step (init_page\<lparr>tasks := [ImageLoad []]\<rparr>) (image_onload [] (init_page\<lparr>tasks := []\<rparr>)) \<and>
   (\<exists>new. console (image_onload [] (init_page\<lparr>tasks := []\<rparr>)) = console (init_page\<lparr>tasks := [ImageLoad []]\<rparr>) @ new \<and>
      (\<forall>e. LogError ''Error classifying image:'' e \<in> set new \<longrightarrow>
           results (image_onload [] (init_page\<lparr>tasks := []\<rparr>)) = [Para msg_error]))"
proof -
  have "tasks (init_page\<lparr>tasks := [ImageLoad []]\<rparr>) = [] @ ImageLoad [] # []" by simp
  then have h: "page_step (init_page\<lparr>tasks := [ImageLoad []]\<rparr>) (image_onload [] (init_page\<lparr>tasks := []\<rparr>))"
    using page_step.image [of "init_page\<lparr>tasks := [ImageLoad []]\<rparr>" "[]" "[]" "[]"] by simp
  show ?thesis by (intro conjI h step_errors_logged_and_shown [OF h])
qed


subsection \<open>Every upload can end with its own result\<close>

lemma steps_keep_model:
  "page_step\<^sup>*\<^sup>* s s' \<Longrightarrow> reachable s \<Longrightarrow> model s = Some m \<Longrightarrow> model s' = Some m"
proof (induction rule: rtranclp_induct)
  case base
  then show ?case by simp
next
  case (step y z)
  have "reachable y" using step.hyps(1) step.prems(1) by (rule reachable_steps)
  then show ?case using model_step_loaded [OF reachable_page_inv step.hyps(2)] step.IH step.prems by blast
qed

text \<open>C26. Liveness of an upload: from any reachable state with a loaded model, a user
  who selects a readable file that decodes to the canvas bytes \<open>d\<close> can see, under
  some schedule of the browser's callbacks, the page settle with that file displayed
  and its own classification in the results box.\<close>

theorem upload_eventually_shown:
  assumes "reachable s" "model s = Some m" "readable u" "canvas_rgba u = Some d"
  shows "\<exists>s'. page_step\<^sup>*\<^sup>* s s' \<and> tasks s' = [] \<and> uploaded_src s' = DataURL u \<and>
              results s' = classify_outcome m d"
proof -
  obtain s1 where st1: "page_step\<^sup>*\<^sup>* s s1" and t1: "tasks s1 = []" using drain_queue by blast
  have m1: "model s1 = Some m" using steps_keep_model [OF st1 assms(1,2)] .
  obtain s' where st2: "page_step\<^sup>*\<^sup>* s1 s'" and "uploaded_src s' = DataURL u"
    and "results s' = classify_outcome m d" and "tasks s' = tasks s1"
    using classify_sequential_aux [OF m1 assms(3,4)] by blast
  then show ?thesis using st1 t1 rtranclp_trans [OF st1 st2] by auto
qed

theorem upload_eventually_shown_witness:
  "reachable loaded_page \<and> model loaded_page = Some demo_session \<and> readable demo_upload \<and>
   canvas_rgba demo_upload = Some (replicate (4 * 177 * 177) 0) \<and>
   (\<exists>s'. page_step\<^sup>*\<^sup>* loaded_page s' \<and> tasks s' = [] \<and> uploaded_src s' = DataURL demo_upload \<and>
         results s' = classify_outcome demo_session (replicate (4 * 177 * 177) 0))"
proof -
  have h1: "reachable loaded_page" by (rule reachable_loaded_page)
  have h2: "model loaded_page = Some demo_session" by simp
  have h3: "readable demo_upload" by (simp add: demo_upload_def)
  have h4: "canvas_rgba demo_upload = Some (replicate (4 * 177 * 177) 0)" by (simp add: demo_upload_def)
  show ?thesis by (intro conjI h1 h2 h3 h4 upload_eventually_shown [OF h1 h2 h3 h4])
qed

end
