(* ===== verification/Pipeline.thy ===== *)
theory Pipeline
  imports Page
begin

text \<open>
  The spec's contracts for one classification (sections 4.1--4.3 and 7) composed into a
  reference pipeline, and the handlers of the page shown to implement it. The spec's
  \<open>preprocess\<close> yields the channel-planar tensor; \<open>classify\<close> fails with
  \<open>ModelNotLoadedError\<close> without a session and with \<open>InferenceError\<close> when the engine
  rejects the run or yields no tensor under the declared output name; \<open>rank\<close> fails
  with \<open>LabelMismatchError\<close>. The page does not name these errors: it shows one
  error message for all of them.
\<close>

datatype pipeline_error = ModelNotLoadedError | InferenceError string | LabelMismatch

text \<open>\<open>classify(tensor, session)\<close> of section 4.2: feed the tensor under the declared
  input name, read the output under the declared output name.\<close>

definition spec_classify :: "session option \<Rightarrow> tensor \<Rightarrow> pipeline_error + jsnum list" where
  "spec_classify sess t =
     (case sess of
        None \<Rightarrow> Inl ModelNotLoadedError
      | Some m \<Rightarrow>
          (case run m [(first_name_key (inputNames m), t)] of
             Inl msg \<Rightarrow> Inl (InferenceError msg)
           | Inr out \<Rightarrow>
               (case obj_get out (first_name_key (outputNames m)) of
                  None \<Rightarrow> Inl (InferenceError ''no output under the declared name'')
                | Some ot \<Rightarrow> Inr (tdata ot))))"

text \<open>Image to ranking: preprocess to the planar float32 tensor, classify, rank against
  the ten labels.\<close>

definition spec_pipeline ::
  "session option \<Rightarrow> byte list \<Rightarrow> pipeline_error + ((string \<times> jsnum) list \<times> (string \<times> jsnum))" where
  "spec_pipeline sess d =
     (case spec_classify sess
             \<lparr>ttype = ''float32'', tdata = planar_tensor (177 * 177) d, tdims = [1, 3, 177, 177]\<rparr> of
        Inl e \<Rightarrow> Inl e
      | Inr ps \<Rightarrow> (case spec_rank ps classNames of Inl _ \<Rightarrow> Inl LabelMismatch | Inr r \<Rightarrow> Inr r))"

lemma spec_rank_probs:
  "spec_rank ps classNames = Inr r \<Longrightarrow> map snd (fst r) = ps"
  by (auto simp: spec_rank_def split: if_splits)

text \<open>C27. The page refines the spec's pipeline. With a model loaded and a decoded
  177\<times>177 canvas, \<^verbatim>\<open>image.onload\<close> shows the waiting message and issues exactly
  one \<^verbatim>\<open>model.run\<close>; when it settles, the page shows the spec's ranking whenever
  the spec's pipeline succeeds (on a NaN-free vector), and the error message whenever the
  spec reports an \<open>InferenceError\<close>.\<close>

theorem handlers_refine_spec_pipeline:
  assumes "length d = 4 * 177 * 177" "model s = Some m"
  shows "\<exists>R. image_onload d s = s\<lparr>results := [Para msg_classifying], tasks := tasks s @ [RunDone R]\<rparr> \<and>
             (\<forall>r. spec_pipeline (model s) d = Inr r \<longrightarrow> NaN \<notin> set (map snd (fst r)) \<longrightarrow>
                  results (run_continue R s) = display_ranking r) \<and>
             (\<forall>e. spec_pipeline (model s) d = Inl (InferenceError e) \<longrightarrow>
                  results (run_continue R s) = [Para msg_error])"
proof -
  let ?t = "\<lparr>ttype = ''float32'', tdata = planar_tensor (177 * 177) d, tdims = [1, 3, 177, 177]\<rparr>"
  let ?R = "run m [(first_name_key (inputNames m), ?t)]"
  have pre: "preprocessImage d = Inr ?t" using assms(1) by (rule preprocessImage_planar_eq)
  have img: "image_onload d s = s\<lparr>results := [Para msg_classifying], tasks := tasks s @ [RunDone ?R]\<rparr>"
    using image_onload_loaded [OF assms(2) pre] .
  have ok: "results (run_continue ?R s) = display_ranking r"
    if "spec_pipeline (model s) d = Inr r" "NaN \<notin> set (map snd (fst r))" for r
  proof -
    have sp: "spec_pipeline (Some m) d = Inr r" using that(1) assms(2) by simp
    show ?thesis
    proof (cases ?R)
      case (Inl msg)
      then show ?thesis using sp by (simp add: spec_pipeline_def spec_classify_def)
    next
      case (Inr out)
      show ?thesis
      proof (cases "obj_get out (first_name_key (outputNames m))")
        case None
        then show ?thesis using sp Inr by (simp add: spec_pipeline_def spec_classify_def)
      next
        case (Some ot)
        have sr: "spec_rank (tdata ot) classNames = Inr r"
          using sp Inr Some by (simp add: spec_pipeline_def spec_classify_def split: sum.splits)
        have "NaN \<notin> set (tdata ot)" using that(2) spec_rank_probs [OF sr] by simp
        then have "render_results (tdata ot) = Inr (display_ranking r)"
          using sr by (intro render_results_spec_rank_aux)
        then show ?thesis using Inr Some assms(2) by (simp add: run_continue_alt)
      qed
    qed
  qed
  have err: "results (run_continue ?R s) = [Para msg_error]"
    if "spec_pipeline (model s) d = Inl (InferenceError e)" for e
    using that assms(2)
    by (auto simp: spec_pipeline_def spec_classify_def run_continue_alt
             split: sum.splits option.splits)
  show ?thesis using img ok err by blast
qed

theorem handlers_refine_spec_pipeline_witness:
  "length (replicate (4 * 177 * 177) (0::byte)) = 4 * 177 * 177 \<and> model loaded_page = Some demo_session \<and>
   (\<exists>R. image_onload (replicate (4 * 177 * 177) 0) loaded_page =
          loaded_page\<lparr>results := [Para msg_classifying], tasks := tasks loaded_page @ [RunDone R]\<rparr> \<and>
        (\<forall>r. spec_pipeline (model loaded_page) (replicate (4 * 177 * 177) 0) = Inr r \<longrightarrow>
             NaN \<notin> set (map snd (fst r)) \<longrightarrow> results (run_continue R loaded_page) = display_ranking r) \<and>
        (\<forall>e. spec_pipeline (model loaded_page) (replicate (4 * 177 * 177) 0) = Inl (InferenceError e) \<longrightarrow>
             results (run_continue R loaded_page) = [Para msg_error]))"
proof -
  have h1: "length (replicate (4 * 177 * 177) (0::byte)) = 4 * 177 * 177" by simp
  have h2: "model loaded_page = Some demo_session" by simp
  show ?thesis by (intro conjI h1 h2 handlers_refine_spec_pipeline [OF h1 h2])
qed

end
