(* ===== verification/Html.thy ===== *)
theory Html
  imports Page "HOL-Library.Monad_Syntax"
begin

text \<open>
  The HTML the script writes into \<^verbatim>\<open>resultsDiv\<close> (src/script.js, lines 55, 69,
  93--110 and 113): each display item of the results box rendered as the exact text of
  its template literal, whitespace and line breaks included, and the box's
  \<^verbatim>\<open>innerHTML\<close> as their concatenation (\<^verbatim>\<open>innerHTML = ''\<close> then one
  \<^verbatim>\<open>+=\<close> per item). Next to it a reader of that text (\<open>parse_html\<close>, a parser in
  the style of a token-consuming function with literal matching) that recovers the
  items: what the browser shows is determined by, and can be read back into, the
  labels and percentages of the model.
\<close>

subsection \<open>The templates\<close>

definition nl :: string where
  "nl = [CHR 0x0A]"

definition spaces :: "nat \<Rightarrow> string" where
  "spaces n = replicate n (CHR '' '')"

text \<open>The template of lines 95--103, for the upper-cased label and the
  \<open>toFixed(2)\<close> percentage (used twice: bar width and text).\<close>

definition row_html :: "string \<Rightarrow> string \<Rightarrow> string" where
  \<open>row_html name pct =
     nl @ spaces 24 @ ''<div class="result">'' @
     nl @ spaces 28 @ ''<span>'' @ name @ ''</span>'' @
     nl @ spaces 28 @ ''<div class="bar-container">'' @
     nl @ spaces 32 @ ''<div class="bar" style="width: '' @ pct @ ''%;"></div>'' @
     nl @ spaces 28 @ ''</div>'' @
     nl @ spaces 28 @ ''<span>'' @ pct @ ''%</span>'' @
     nl @ spaces 24 @ ''</div>'' @
     nl @ spaces 20\<close>

text \<open>The template of lines 107--110.\<close>

definition most_likely_html :: "string \<Rightarrow> string \<Rightarrow> string" where
  \<open>most_likely_html name pct =
     nl @ spaces 20 @ ''<h3>Most Likely Class:</h3>'' @
     nl @ spaces 20 @ ''<p>'' @ name @ '' with '' @ pct @ ''%</p>'' @
     nl @ spaces 16\<close>

text \<open>The one-paragraph messages of lines 55, 69 and 113.\<close>

definition para_html :: "string \<Rightarrow> string" where
  \<open>para_html msg = ''<p>'' @ msg @ ''</p>''\<close>

primrec html_of :: "html \<Rightarrow> string" where
  "html_of (Para msg) = para_html msg"
| "html_of (ResultRow name pct) = row_html name pct"
| "html_of (MostLikely name pct) = most_likely_html name pct"

definition inner_html :: "html list \<Rightarrow> string" where
  "inner_html items = concat (map html_of items)"

subsection \<open>Reading the text back\<close>

fun strip_prefix :: "string \<Rightarrow> string \<Rightarrow> string option" where
  "strip_prefix [] s = Some s"
| "strip_prefix (c # cs) [] = None"
| "strip_prefix (c # cs) (d # ds) = (if c = d then strip_prefix cs ds else None)"

definition read_until :: "char \<Rightarrow> string \<Rightarrow> (string \<times> string) option" where
  "read_until c s =
     (if c \<in> set s then Some (takeWhile (\<lambda>x. x \<noteq> c) s, dropWhile (\<lambda>x. x \<noteq> c) s) else None)"

definition parse_row :: "string \<Rightarrow> (html \<times> string) option" where
  \<open>parse_row s = do {
     s1 \<leftarrow> strip_prefix (nl @ spaces 24 @ ''<div class="result">'' @ nl @ spaces 28 @ ''<span>'') s;
     (name, s2) \<leftarrow> read_until (CHR ''<'') s1;
     s3 \<leftarrow> strip_prefix (''</span>'' @ nl @ spaces 28 @ ''<div class="bar-container">'' @
                         nl @ spaces 32 @ ''<div class="bar" style="width: '') s2;
     (pct, s4) \<leftarrow> read_until (CHR ''%'') s3;
     s5 \<leftarrow> strip_prefix (''%;"></div>'' @ nl @ spaces 28 @ ''</div>'' @ nl @ spaces 28 @ ''<span>'' @
                         pct @ ''%</span>'' @ nl @ spaces 24 @ ''</div>'' @ nl @ spaces 20) s4;
     Some (ResultRow name pct, s5)
   }\<close>

definition parse_most_likely :: "string \<Rightarrow> (html \<times> string) option" where
  \<open>parse_most_likely s = do {
     s1 \<leftarrow> strip_prefix (nl @ spaces 20 @ ''<h3>Most Likely Class:</h3>'' @ nl @ spaces 20 @ ''<p>'') s;
     (line, s2) \<leftarrow> read_until (CHR ''%'') s1;
     (name, w) \<leftarrow> read_until (CHR '' '') line;
     pct \<leftarrow> strip_prefix '' with '' w;
     s3 \<leftarrow> strip_prefix (''%</p>'' @ nl @ spaces 16) s2;
     Some (MostLikely name pct, s3)
   }\<close>

definition parse_para :: "string \<Rightarrow> (html \<times> string) option" where
  \<open>parse_para s = do {
     s1 \<leftarrow> strip_prefix ''<p>'' s;
     (msg, s2) \<leftarrow> read_until (CHR ''<'') s1;
     s3 \<leftarrow> strip_prefix ''</p>'' s2;
     Some (Para msg, s3)
   }\<close>

definition parse_item :: "string \<Rightarrow> (html \<times> string) option" where
  "parse_item s =
     (case parse_row s of
        Some r \<Rightarrow> Some r
      | None \<Rightarrow> (case parse_most_likely s of Some r \<Rightarrow> Some r | None \<Rightarrow> parse_para s))"

text \<open>Items one after the other; each consumes at least one character, so the length of
  the text is enough fuel.\<close>

fun parse_items :: "nat \<Rightarrow> string \<Rightarrow> html list option" where
  "parse_items n [] = Some []"
| "parse_items 0 (c # cs) = None"
| "parse_items (Suc n) (c # cs) = do {
     (x, r) \<leftarrow> parse_item (c # cs);
     xs \<leftarrow> parse_items n r;
     Some (x # xs)
   }"

definition parse_html :: "string \<Rightarrow> html list option" where
  "parse_html s = parse_items (length s) s"

text \<open>What the reader needs of the interpolated text: no \<open><\<close> in a label or a
  message, no \<open>%\<close> in a percentage, and no space or \<open>%\<close> in the label of the
  most-likely line.\<close>

fun html_safe :: "html \<Rightarrow> bool" where
  "html_safe (Para msg) = (CHR ''<'' \<notin> set msg)"
| "html_safe (ResultRow name pct) = (CHR ''<'' \<notin> set name \<and> CHR ''%'' \<notin> set pct)"
| "html_safe (MostLikely name pct) =
     (CHR '' '' \<notin> set name \<and> CHR ''%'' \<notin> set name \<and> CHR ''%'' \<notin> set pct)"

text \<open>No interpolated text carries markup: no \<open><\<close> and no \<open>&\<close> in a label, a
  percentage or a message, so the browser parses the box into exactly the elements of
  the templates.\<close>

fun no_markup :: "html \<Rightarrow> bool" where
  "no_markup (Para msg) = (CHR ''<'' \<notin> set msg \<and> CHR ''&'' \<notin> set msg)"
| "no_markup (ResultRow name pct) =
     (CHR ''<'' \<notin> set name \<and> CHR ''&'' \<notin> set name \<and> CHR ''<'' \<notin> set pct \<and> CHR ''&'' \<notin> set pct)"
| "no_markup (MostLikely name pct) =
     (CHR ''<'' \<notin> set name \<and> CHR ''&'' \<notin> set name \<and> CHR ''<'' \<notin> set pct \<and> CHR ''&'' \<notin> set pct)"

subsection \<open>Round trip of one item\<close>

lemma strip_prefix_append [simp]: "strip_prefix (p @ x) (p @ y) = strip_prefix x y"
  by (induction p) auto

lemma strip_prefix_Nil_append [simp]: "strip_prefix p (p @ y) = Some y"
  using strip_prefix_append [of p "[]" y] by simp

lemma read_until_hit [simp]: "read_until c (c # s) = Some ([], c # s)"
  by (simp add: read_until_def)

lemma read_until_other [simp]:
  "x \<noteq> c \<Longrightarrow> read_until c (x # s) = map_option (\<lambda>(a, b). (x # a, b)) (read_until c s)"
  by (simp add: read_until_def)

lemma read_until_append [simp]:
  "c \<notin> set l \<Longrightarrow> read_until c (l @ s) = map_option (\<lambda>(a, b). (l @ a, b)) (read_until c s)"
proof (induction l)
  case Nil
  then show ?case by (cases "read_until c s") auto
next
  case (Cons a l)
  then show ?case by (cases "read_until c s") auto
qed

lemma parse_row_html:
  assumes "CHR ''<'' \<notin> set name" "CHR ''%'' \<notin> set pct"
  shows "parse_row (row_html name pct @ rest) = Some (ResultRow name pct, rest)"
  using assms by (simp add: parse_row_def row_html_def)

lemma parse_most_likely_html:
  assumes "CHR '' '' \<notin> set name" "CHR ''%'' \<notin> set name" "CHR ''%'' \<notin> set pct"
  shows "parse_most_likely (most_likely_html name pct @ rest) = Some (MostLikely name pct, rest)"
  using assms by (simp add: parse_most_likely_def most_likely_html_def)

lemma parse_para_html:
  assumes "CHR ''<'' \<notin> set msg"
  shows "parse_para (para_html msg @ rest) = Some (Para msg, rest)"
  using assms by (simp add: parse_para_def para_html_def)

lemma spaces_split: "spaces (m + k) = spaces m @ spaces k"
  by (simp add: spaces_def replicate_add)

lemma spaces_Suc: "spaces (Suc k) = CHR '' '' # spaces k"
  by (simp add: spaces_def)

lemma parse_row_most_likely: "parse_row (most_likely_html name pct @ rest) = None"
proof -
  have s24: "spaces 24 = spaces 20 @ spaces 4" using spaces_split [of 20 4] by simp
  have s4: "spaces 4 = CHR '' '' # spaces 3" using spaces_Suc [of 3] by (simp add: numeral_eq_Suc)
  show ?thesis by (simp add: parse_row_def most_likely_html_def s24 s4)
qed

lemma parse_row_para: "parse_row (para_html msg @ rest) = None"
  by (simp add: parse_row_def para_html_def nl_def)

lemma parse_most_likely_para: "parse_most_likely (para_html msg @ rest) = None"
  by (simp add: parse_most_likely_def para_html_def nl_def)

lemma parse_item_html:
  "html_safe x \<Longrightarrow> parse_item (html_of x @ rest) = Some (x, rest)"
  by (cases x)
     (simp_all add: parse_item_def parse_row_html parse_most_likely_html parse_para_html
                    parse_row_most_likely parse_row_para parse_most_likely_para)

lemma html_of_not_Nil: "html_of x \<noteq> []"
  by (cases x) (simp_all add: para_html_def row_html_def most_likely_html_def nl_def)

lemma parse_items_step:
  "s \<noteq> [] \<Longrightarrow> parse_items (Suc n) s = do { (x, r) \<leftarrow> parse_item s; xs \<leftarrow> parse_items n r; Some (x # xs) }"
  by (cases s) simp_all

lemma parse_items_inner_html:
  "list_all html_safe xs \<Longrightarrow> length xs \<le> n \<Longrightarrow> parse_items n (inner_html xs) = Some xs"
proof (induction xs arbitrary: n)
  case Nil
  then show ?case by (simp add: inner_html_def)
next
  case (Cons x xs)
  then obtain n' where n: "n = Suc n'" by (cases n) auto
  have ne: "html_of x @ inner_html xs \<noteq> []" using html_of_not_Nil [of x] by simp
  have "parse_items n' (inner_html xs) = Some xs" using Cons n by simp
  then show ?case
    using Cons.prems parse_item_html [of x "inner_html xs"] ne n
    by (simp add: inner_html_def parse_items_step)
qed

lemma length_inner_html: "length xs \<le> length (inner_html xs)"
proof (induction xs)
  case Nil
  then show ?case by simp
next
  case (Cons x xs)
  have "1 \<le> length (html_of x)" using html_of_not_Nil [of x] by (cases "html_of x") simp_all
  then show ?case using Cons by (simp add: inner_html_def)
qed

lemma parse_html_inner_html:
  "list_all html_safe xs \<Longrightarrow> parse_html (inner_html xs) = Some xs"
  by (simp add: parse_html_def parse_items_inner_html length_inner_html)

subsection \<open>What the page puts into the box\<close>

lemma js_upper_char_fixed:
  assumes "js_upper_char c = d" "(of_char d :: nat) < 65 \<or> 90 < (of_char d :: nat)"
  shows "c = d"
proof (cases "97 \<le> (of_char c :: nat) \<and> (of_char c :: nat) \<le> 122")
  case True
  then have "d = char_of ((of_char c :: nat) - 32)" using assms(1) by (simp add: js_upper_char_def)
  then have "(of_char d :: nat) = (of_char c - 32) mod 256" by (simp add: of_char_of)
  moreover have "(of_char c - 32 :: nat) mod 256 = of_char c - 32"
    using True by (intro mod_less) arith
  ultimately have False using True assms(2) by arith
  then show ?thesis ..
next
  case False
  then show ?thesis using assms(1) by (auto simp: js_upper_char_def)
qed

lemma not_in_upper:
  "(of_char d :: nat) < 65 \<or> 90 < (of_char d :: nat) \<Longrightarrow> d \<notin> set l \<Longrightarrow> d \<notin> set (js_toUpperCase l)"
  using js_upper_char_fixed by (fastforce simp: js_toUpperCase_def)

lemma upper_label_chars:
  assumes "l \<in> set classNames"
  shows "CHR ''<'' \<notin> set (js_toUpperCase l) \<and> CHR ''&'' \<notin> set (js_toUpperCase l) \<and>
         CHR ''%'' \<notin> set (js_toUpperCase l) \<and> CHR '' '' \<notin> set (js_toUpperCase l)"
proof -
  have "CHR ''<'' \<notin> set l \<and> CHR ''&'' \<notin> set l \<and> CHR ''%'' \<notin> set l \<and> CHR '' '' \<notin> set l"
    using assms by (auto simp: classNames_def)
  then show ?thesis by (simp add: not_in_upper)
qed

lemma toFixed2_markup_chars:
  "CHR ''<'' \<notin> set (js_toFixed2 x) \<and> CHR ''&'' \<notin> set (js_toFixed2 x) \<and> CHR ''%'' \<notin> set (js_toFixed2 x)"
  by (simp add: toFixed2_chars)

text \<open>Every item of a well-formed results box is one of the three messages, or a row
  or most-likely line for a label of \<open>classNames\<close> and a \<open>toFixed(2)\<close> string.\<close>

lemma results_wf_items:
  assumes "results_wf r" "x \<in> set r"
  shows "x \<in> {Para msg_upload, Para msg_classifying, Para msg_error} \<or>
         (\<exists>l v. l \<in> set classNames \<and> x = ResultRow (js_toUpperCase l) (js_toFixed2 v)) \<or>
         (\<exists>l v. l \<in> set classNames \<and> x = MostLikely (js_toUpperCase l) (js_toFixed2 v))"
proof -
  consider "x \<in> {Para msg_upload, Para msg_classifying, Para msg_error}"
    | ps where "ps \<noteq> []" "NaN \<notin> set ps" "length ps \<le> length classNames"
        "r = display_ranking (zip classNames ps, (classNames ! first_max ps, ps ! first_max ps))"
    using assms by (auto simp: results_wf_def)
  then show ?thesis
  proof cases
    case 2
    have fm: "first_max ps < length classNames"
      using first_max_is_first_max [OF 2(1,2)] 2(3) by (simp add: is_first_max_def)
    have "x \<in> set (map (\<lambda>(l, p). result_row l p) (zip classNames ps)) \<or>
          x = MostLikely (js_toUpperCase (classNames ! first_max ps))
                (js_toFixed2 (js_mul_pos (ps ! first_max ps) 100))"
      using assms(2) 2(4) by (auto simp: display_ranking_def)
    then show ?thesis
    proof
      assume "x \<in> set (map (\<lambda>(l, p). result_row l p) (zip classNames ps))"
      then show ?thesis by (auto simp: result_row_def dest: set_zip_leftD)
    next
      assume x: "x = MostLikely (js_toUpperCase (classNames ! first_max ps))
                (js_toFixed2 (js_mul_pos (ps ! first_max ps) 100))"
      have "classNames ! first_max ps \<in> set classNames" using fm by (rule nth_mem)
      then show ?thesis using x by blast
    qed
  qed simp
qed

lemma results_wf_html_safe: "results_wf r \<Longrightarrow> list_all html_safe r"
  using results_wf_items upper_label_chars toFixed2_markup_chars
  by (fastforce simp: list_all_iff msg_upload_def msg_classifying_def msg_error_def)

lemma results_wf_no_markup: "results_wf r \<Longrightarrow> list_all no_markup r"
  using results_wf_items upper_label_chars toFixed2_markup_chars
  by (fastforce simp: list_all_iff msg_upload_def msg_classifying_def msg_error_def)

lemma reachable_results_wf_aux: "reachable s \<Longrightarrow> results_wf (results s)"
  using reachable_page_inv by (simp add: page_inv_def)

lemma demo_classification_reachable:
  "\<exists>s. reachable s \<and> results s = classify_outcome demo_session (replicate (4 * 177 * 177) 0)"
proof -
  have h1: "model loaded_page = Some demo_session" by simp
  have h2: "readable demo_upload" by (simp add: demo_upload_def)
  have h3: "canvas_rgba demo_upload = Some (replicate (4 * 177 * 177) 0)" by (simp add: demo_upload_def)
  obtain s where st: "page_step\<^sup>*\<^sup>* loaded_page s"
    and r: "results s = classify_outcome demo_session (replicate (4 * 177 * 177) 0)"
    using classify_sequential_aux [OF h1 h2 h3] by blast
  have "reachable s" using st reachable_loaded_page by (rule reachable_steps)
  then show ?thesis using r by blast
qed

text \<open>Round trip of the results box: in every reachable state of the page, the
  text of \<^verbatim>\<open>resultsDiv.innerHTML\<close> reads back into exactly the display items the
  model holds: each row's label and percentage (the bar width and the text agree), the
  most-likely line, or the message.\<close>

lemma reachable_html_roundtrip:
  assumes "reachable s"
  shows "parse_html (inner_html (results s)) = Some (results s)"
  using assms by (intro parse_html_inner_html results_wf_html_safe reachable_results_wf_aux)

text \<open>C28. No markup injection: in every reachable state no label, percentage or
  message written into the results box contains \<open><\<close> or \<open>&\<close>, so the browser
  parses the box into exactly the elements of the templates.\<close>

theorem reachable_no_markup:
  assumes "reachable s"
  shows "list_all no_markup (results s)"
  using assms by (intro results_wf_no_markup reachable_results_wf_aux)

theorem reachable_no_markup_witness:
  "\<exists>s. reachable s \<and> results s = classify_outcome demo_session (replicate (4 * 177 * 177) 0) \<and>
       list_all no_markup (results s)"
proof -
  obtain s where h: "reachable s"
    and r: "results s = classify_outcome demo_session (replicate (4 * 177 * 177) 0)"
    using demo_classification_reachable by blast
  show ?thesis using h r reachable_no_markup [OF h] by blast
qed

end
