(* ===== verification/Spec2Isabelle.thy ===== *)
theory Spec2Isabelle
  imports Pipeline Html
begin

text \<open>
  \<^bold>\<open>A verification development of the image classifier page (src/script.js).\<close>

  \<^emph>\<open>The program.\<close> One browser script. At load it starts creating an onnxruntime
  inference session (\<^verbatim>\<open>loadModel\<close>, lines 13--22) and stores it in the global
  \<^verbatim>\<open>model\<close>. On each \<^verbatim>\<open>change\<close> of the file input, \<^verbatim>\<open>uploadAndClassifyImage\<close>
  (lines 52--119) reads the file as a data URL, shows it, decodes it as an image, and in
  \<^verbatim>\<open>image.onload\<close> draws it on a 177\<times>177 canvas, turns the RGBA bytes into a
  channel-planar float32 tensor (\<^verbatim>\<open>preprocessImage\<close>, lines 25--49), runs the model,
  picks the most likely class with \<^verbatim>\<open>indexOf(Math.max(...))\<close> and writes one row per
  class and a "Most Likely Class" line into the results box; every exception of that
  \<^verbatim>\<open>try\<close> block is caught and replaced by one error message. The components interact
  through the global \<^verbatim>\<open>model\<close>, the results box and the browser's queue of callbacks.

  \<^emph>\<open>The theories.\<close>
  \<^item> \<open>Prelude\<close>: the byte type, the \<open>js_simps\<close> collection, lemmas on lists made of
    equal blocks (the tensor's planes) and on bounded updates.
  \<^item> \<open>Float\<close>: IEEE 754 rounding to nearest, ties to even, at a precision of \<open>p\<close>
    bits with gradual underflow (\<open>round_binary\<close>, the exponent found by
    \<open>log2_floor\<close>, a \<^theory_text>\<open>function\<close> with a measure). Lemmas: the error is at
    most half a quantum (relatively \<open>2^-p\<close> for normal values), the result is the
    nearest multiple of the quantum and the even one on a tie, integers below
    \<open>2^p\<close> bound it, and it is monotone (\<open>round_binary_mono\<close>: ties to even is
    symmetric under negation, and across binades a value rounds at most to the power
    of two above it, which larger values round to at least).
  \<^item> \<open>JsValues\<close>: the JavaScript semantics the script relies on: numbers with NaN and
    infinities (\<open>jsnum\<close>, finite values as rationals), double rounding of \<open>/\<close> and
    \<open>*\<close> (\<open>to_f64\<close>, overflowing to the infinities) and float32 rounding of a
    \<^verbatim>\<open>Float32Array\<close> store (\<open>to_f32\<close>, \<open>f32_store\<close>), \<open>js_error\<close>, typed-array
    reads (\<open>u8_read\<close>) and stores (\<open>f32_set\<close>), array reads (\<open>js_array_get\<close>),
    \<open>Math.max\<close> (\<open>js_math_max\<close>), \<open>indexOf\<close>, \<open>toFixed(2)\<close>, \<open>toUpperCase\<close>.
    Next to \<open>js_toFixed2\<close> a reader of printed decimals (\<open>parse_fixed\<close>); the
    round-trip lemma shows that a percentage printed by the page reads back as the
    value rounded half-up to two decimals, sign kept, within 1/200. Double and
    float32 rounding never reverse an order as the script's \<open>>\<close> sees it,
    overflow included. A byte divided
    by 255 and stored as a float32 (\<open>byte_div255_f32\<close>) is within a relative
    \<open>2^-23\<close> of the quotient, so multiplying by 255 and rounding recovers the byte.
  \<^item> \<open>Ort\<close>: the interface of the onnxruntime library: \<open>tensor\<close>, \<open>session\<close> (its
    \<open>run\<close> is a field, so every result holds for any model), the \<open>ort.Tensor\<close>
    constructor with its size check.
  \<^item> \<open>Preprocess\<close>: \<open>preprocess_loop\<close> is the loop of lines 39--46 (a
    \<^theory_text>\<open>function\<close> with a measure on the remaining bytes), \<open>preprocessImage\<close> the
    function; \<open>planar_tensor\<close> is the spec's layout. Lemmas: the loop computes the
    planar layout (by an invariant on the partially written buffer), the layout is
    row-major, values lie in [0, 1], the normalisation round-trips, alpha is ignored,
    the function never throws.
  \<^item> \<open>Ranking\<close>: \<open>render_block\<close> is lines 89--110 (\<open>maxIndex\<close>, the box
    emptied, the \<^verbatim>\<open>forEach\<close> as \<open>render_rows\<close> appending one row per entry, the
    top-1 line); a throw carries the rows already appended, and \<open>render_results\<close>
    is the block's outcome as the code after it sees it. The results box is a list of
    display items (\<open>html\<close>). Next to it the spec's contract \<open>spec_rank\<close> with the
    one-pass \<open>first_max\<close>. Lemmas: the two-pass \<open>maxIndex\<close> equals the one-pass scan
    and selects the first maximum; rendering fails exactly on empty, NaN-holding or
    over-long vectors; it refines \<open>spec_rank\<close>; the label-count guard is missing.
    On a vector of probabilities in [0, 1] (\<open>is_probability\<close>), reading the rows'
    percentage strings back (\<open>shown_percent\<close>): each is within \<open>1/200 + 2^-47\<close> of
    100 times its probability, they keep the order of the probabilities, so the
    most-likely line repeats a row and shows the largest percentage, and they sum to
    100 times the probabilities' sum within that bound per row (the spec's own example
    vector sums to 21/20).
  \<^item> \<open>Page\<close>: the state (\<open>page\<close>: \<^verbatim>\<open>model\<close>, results box, image \<^verbatim>\<open>src\<close>,
    console, pending callbacks), one function per handler (\<open>loadModel_done\<close>,
    \<open>uploadAndClassifyImage\<close>, \<open>reader_onloadend\<close>, \<open>image_onload\<close> up to the
    \<^verbatim>\<open>await\<close>, \<open>run_continue\<close> after it, \<open>catch_error\<close>), and \<open>page_step\<close>, the
    inductive step relation in which the user may fire \<^verbatim>\<open>change\<close> at any time and
    the browser may run any pending callback. Lemmas, by rule induction over
    \<open>reachable\<close>: the results box never shows a partial rendering (the rows a
    failing rendering appended are left in the box until the \<^verbatim>\<open>catch\<close> replaces
    them), the model is written once; functional lemmas
    on the handlers: no model gives the "not loaded" error and no run; a sequential
    upload ends showing the pipeline's outcome; two interleaved uploads can end
    showing a stale result; a failed model load is permanent (over any sequence of
    steps, \<open>page_step\<^sup>*\<^sup>*\<close>); a rejected \<^verbatim>\<open>run\<close> and a missing output
    tensor each end in the error message with the error logged. The queue of
    callbacks drains: each callback lowers a weight on the pending callbacks
    (\<open>pending_weight\<close>) and from every state the browser can empty the queue. By a
    second invariant, over the reachable states indexed by the files the user has
    selected (\<open>reachable_after\<close>, a trace of the \<^verbatim>\<open>change\<close> events) and proved by
    rule induction over it (\<open>run_provenance\<close>, \<open>shown_provenance\<close>), whatever the
    results box shows is a message or exactly \<open>classify_outcome m d\<close> for the
    loaded model \<open>m\<close> and the canvas \<open>d\<close> of a selected file. Composing the two: from any reachable state
    with a loaded model, an upload can end, once the queue is drained, with its own
    classification on screen.
  \<^item> \<open>Pipeline\<close>: the spec's contracts composed into \<open>spec_pipeline\<close> (preprocess to
    the planar tensor, \<open>spec_classify\<close> with \<open>ModelNotLoadedError\<close> and
    \<open>InferenceError\<close>, \<open>spec_rank\<close>), and the refinement lemma: with a model
    loaded, \<open>image_onload\<close> then \<open>run_continue\<close> show the spec's ranking whenever
    the pipeline succeeds on a NaN-free vector and the error message whenever it
    reports an inference error.
  \<^item> \<open>Html\<close>: the text the page writes into the results box: the exact template
    strings of lines 55, 69, 93--110 and 113 (\<open>row_html\<close>, \<open>most_likely_html\<close>,
    \<open>para_html\<close>, joined by \<open>inner_html\<close> as the \<^verbatim>\<open>+=\<close> of the loop does), and a
    reader of that text (\<open>parse_html\<close>, a parser returning the item and the rest of
    the input, with fuel the length of the text). Lemmas: the reader inverts the
    writer on every item whose interpolated text is safe (no \<open><\<close> in a label or
    message, no \<open>%\<close> in a percentage, no space in the most-likely label); labels
    (upper-cased \<open>classNames\<close>) and \<open>toFixed(2)\<close> strings are safe, so in every
    reachable state the box's text reads back into the items of the model, and no
    interpolated text contains \<open><\<close> or \<open>&\<close>.
  \<^item> This theory: the end-to-end examples of section 8 of the spec, as lemmas run
    on fixed inputs (a session returning the example vector, a black and a solid red
    canvas), with the example vector both as exact decimals and as the float32
    values a model returns. They are checks of the model on the spec's test cases;
    the properties are stated in the component theories.

  \<^emph>\<open>Bounds and fuel.\<close> The script's loops need no fuel: every loop runs over a finite
  array and is a total function (\<open>preprocess_loop\<close> with the measure
  \<open>length data - i\<close>, the others structural). The canvas side 177 is a parameter
  \<open>w\<close> of the loop, instantiated to the script's literal; the generic lemmas hold for
  every \<open>w\<close>. The page itself may run forever (the user can always upload again);
  what terminates is the browser's part: a pending read weighs 3, an image load 2,
  the session creation and a resumption 1, so at most three callbacks per pending
  task run before the queue is empty. The exponent search \<open>log2_floor\<close> halves or
  doubles its argument, with the floor of the value (above 2) or the ceiling of its
  inverse (below 1) as measure. The float formats are the IEEE ones: 53 bits and
  least normal exponent \<open>-1022\<close> for doubles, 24 bits and \<open>-126\<close> for float32;
  every value the script stores is a byte over 255, at least \<open>2^-8\<close> or 0, so it
  stays in the normal range where the relative bounds apply. The reader of the
  results box is given the length of the text as fuel: each item it reads consumes
  at least one character, so that much fuel always suffices.

  \<^emph>\<open>Not modelled.\<close> The browser's decoding and resampling of the image
  (\<^verbatim>\<open>drawImage\<close>): an upload carries the bytes the canvas yields. The sign of
  zero (\<open>+0\<close> and \<open>-0\<close> are one value; no operation of the script tells them
  apart). The inference itself (any \<open>run\<close> function) and the creation of the
  session (any outcome). The browser's HTML parser and the DOM it builds (the box is
  modelled as the text assigned to \<^verbatim>\<open>innerHTML\<close>; since no interpolated text
  holds markup, the parser reproduces the templates' elements), the bar widths' CSS
  layout, and the console's formatting. The argument-count limit of
  \<open>Math.max(...)\<close>. \<^verbatim>\<open>Number::toString\<close> above \<open>10^21\<close> is read on exact digits.
\<close>

subsection \<open>End-to-end examples\<close>

text \<open>The spec's example vector as the model's \<^verbatim>\<open>Float32Array\<close> output really holds
  it: each probability rounded to float32 (\<^verbatim>\<open>Math.fround\<close>).\<close>

definition example_probs_f32 :: "jsnum list" where
  "example_probs_f32 = map f32_store example_probs"

lemma f64_5: "to_f64 5 = Fin 5"
  by code_simp

lemma f64_60: "to_f64 60 = Fin 60"
  by code_simp

lemma fixed2_5: "js_toFixed2 (Fin 5) = ''5.00''"
  by code_simp

lemma fixed2_60: "js_toFixed2 (Fin 60) = ''60.00''"
  by code_simp

lemma upper_classNames:
  "js_toUpperCase ''anggur'' = ''ANGGUR''" "js_toUpperCase ''apel'' = ''APEL''"
  "js_toUpperCase ''belimbing'' = ''BELIMBING''" "js_toUpperCase ''jeruk'' = ''JERUK''"
  "js_toUpperCase ''kiwi'' = ''KIWI''" "js_toUpperCase ''mangga'' = ''MANGGA''"
  "js_toUpperCase ''nanas'' = ''NANAS''" "js_toUpperCase ''pisang'' = ''PISANG''"
  "js_toUpperCase ''semangka'' = ''SEMANGKA''" "js_toUpperCase ''stroberi'' = ''STROBERI''"
  by (simp_all add: js_toUpperCase_def js_upper_char_def char_of_eq_iff)

lemma f32_005: "f32_store (Fin (1 / 20)) = Fin (13421773 / 268435456)"
  by code_simp

lemma f32_06: "f32_store (Fin (3 / 5)) = Fin (5033165 / 8388608)"
  by code_simp

lemma pct_005: "js_toFixed2 (to_f64 (335544325 / 67108864)) = ''5.00''"
  by code_simp

lemma pct_06: "js_toFixed2 (to_f64 (125829125 / 2097152)) = ''60.00''"
  by code_simp

lemma example_probs_f32_eq:
  "example_probs_f32 =
     [Fin (13421773 / 268435456), Fin (13421773 / 268435456), Fin (5033165 / 8388608),
      Fin (13421773 / 268435456), Fin (13421773 / 268435456), Fin (13421773 / 268435456),
      Fin (13421773 / 268435456), Fin (13421773 / 268435456), Fin (13421773 / 268435456),
      Fin (13421773 / 268435456)]"
  by (simp add: example_probs_f32_def example_probs_def f32_005 f32_06)

lemma render_example_f32:
  "render_results example_probs_f32 =
     Inr [ResultRow ''ANGGUR'' ''5.00'', ResultRow ''APEL'' ''5.00'', ResultRow ''BELIMBING'' ''60.00'',
          ResultRow ''JERUK'' ''5.00'', ResultRow ''KIWI'' ''5.00'', ResultRow ''MANGGA'' ''5.00'',
          ResultRow ''NANAS'' ''5.00'', ResultRow ''PISANG'' ''5.00'', ResultRow ''SEMANGKA'' ''5.00'',
          ResultRow ''STROBERI'' ''5.00'', MostLikely ''BELIMBING'' ''60.00'']"
proof -
  have ok: "example_probs_f32 \<noteq> []" "NaN \<notin> set example_probs_f32"
    "length example_probs_f32 \<le> length classNames"
    by (simp_all add: example_probs_f32_eq)
  have fm: "first_max example_probs_f32 = 2" by (simp add: first_max_def example_probs_f32_eq)
  have "render_results example_probs_f32 =
        Inr (map (\<lambda>(l, p). result_row l p) (zip classNames example_probs_f32) @
             [MostLikely (js_toUpperCase (classNames ! 2))
                (js_toFixed2 (js_mul_pos (example_probs_f32 ! 2) 100))])"
    using render_results_ok [OF ok] by (simp only: fm)
  then show ?thesis
    by (simp add: example_probs_f32_eq classNames_def result_row_def upper_classNames pct_005 pct_06)
qed

lemma first_max_example: "first_max example_probs = 2"
  by (simp add: first_max_def example_probs_def)

lemma render_example:
  "render_results example_probs =
     Inr [ResultRow ''ANGGUR'' ''5.00'', ResultRow ''APEL'' ''5.00'', ResultRow ''BELIMBING'' ''60.00'',
          ResultRow ''JERUK'' ''5.00'', ResultRow ''KIWI'' ''5.00'', ResultRow ''MANGGA'' ''5.00'',
          ResultRow ''NANAS'' ''5.00'', ResultRow ''PISANG'' ''5.00'', ResultRow ''SEMANGKA'' ''5.00'',
          ResultRow ''STROBERI'' ''5.00'', MostLikely ''BELIMBING'' ''60.00'']"
proof -
  have ok: "example_probs \<noteq> []" "NaN \<notin> set example_probs" "length example_probs \<le> length classNames"
    by (simp_all add: example_probs_def)
  have "render_results example_probs =
        Inr (map (\<lambda>(l, p). result_row l p) (zip classNames example_probs) @
             [MostLikely (js_toUpperCase (classNames ! 2)) (js_toFixed2 (js_mul_pos (example_probs ! 2) 100))])"
    using render_results_ok [OF ok] by (simp only: first_max_example)
  then show ?thesis
    by (simp add: example_probs_def classNames_def result_row_def upper_classNames f64_5 f64_60 fixed2_5 fixed2_60)
qed

lemma classify_outcome_demo:
  "classify_outcome demo_session d =
     [ResultRow ''ANGGUR'' ''5.00'', ResultRow ''APEL'' ''5.00'', ResultRow ''BELIMBING'' ''60.00'',
      ResultRow ''JERUK'' ''5.00'', ResultRow ''KIWI'' ''5.00'', ResultRow ''MANGGA'' ''5.00'',
      ResultRow ''NANAS'' ''5.00'', ResultRow ''PISANG'' ''5.00'', ResultRow ''SEMANGKA'' ''5.00'',
      ResultRow ''STROBERI'' ''5.00'', MostLikely ''BELIMBING'' ''60.00'']"
proof -
  obtain t where "preprocessImage d = Inr t" using preprocessImage_total_aux [of d] by blast
  then show ?thesis
    by (simp add: classify_outcome_def demo_session_def first_name_key_def obj_get_def render_example)
qed

text \<open>Spec section 8, last example: when the model outputs 0.6 for the third class
  and 0.05 for the nine others, uploading an image ends with the page showing every
  class at 5.00\% but BELIMBING at 60.00\%, in label order, and BELIMBING at 60.00\% as
  the most likely class.\<close>

lemma example_belimbing_shown:
  "\<exists>s'. page_step\<^sup>*\<^sup>* loaded_page s' \<and> uploaded_src s' = DataURL demo_upload \<and>
        results s' =
          [ResultRow ''ANGGUR'' ''5.00'', ResultRow ''APEL'' ''5.00'', ResultRow ''BELIMBING'' ''60.00'',
           ResultRow ''JERUK'' ''5.00'', ResultRow ''KIWI'' ''5.00'', ResultRow ''MANGGA'' ''5.00'',
           ResultRow ''NANAS'' ''5.00'', ResultRow ''PISANG'' ''5.00'', ResultRow ''SEMANGKA'' ''5.00'',
           ResultRow ''STROBERI'' ''5.00'', MostLikely ''BELIMBING'' ''60.00'']"
proof -
  have h1: "model loaded_page = Some demo_session" by simp
  have h2: "readable demo_upload" by (simp add: demo_upload_def)
  have h3: "canvas_rgba demo_upload = Some (replicate (4 * 177 * 177) 0)" by (simp add: demo_upload_def)
  show ?thesis
    using classify_sequential_aux [OF h1 h2 h3] by (auto simp: classify_outcome_demo)
qed

text \<open>Spec section 8: a solid red 177\<times>177 canvas gives a tensor whose red plane is
  all 1 and whose green and blue planes are all 0.\<close>

lemma solid_red_tensor:
  "preprocessImage (concat (replicate (177 * 177) [255, 0, 0, 255])) =
   Inr \<lparr>ttype = ''float32'',
        tdata = replicate (177 * 177) (Fin 1) @ replicate (177 * 177) (Fin 0) @ replicate (177 * 177) (Fin 0),
        tdims = [1, 3, 177, 177]\<rparr>"
proof -
  have l: "length (concat (replicate (177 * 177) [255, 0, 0, 255 :: byte])) = 4 * 177 * 177"
    by (simp add: length_concat_replicate)
  show ?thesis
    using preprocessImage_planar_eq [OF l] planar_tensor_solid [of "177 * 177" 255 0 0 255]
    by simp
qed


text \<open>The spec's end-to-end example survives float32: when the model returns the
  example vector as float32 values (0.05 and 0.6 are not exact in binary), the results
  box shows exactly what it shows for the exact decimals: every class at 5.00\% but
  BELIMBING at 60.00\%, and BELIMBING as the most likely class.\<close>

lemma example_float32_same_display:
  "render_results example_probs_f32 = render_results example_probs"
  by (simp only: render_example_f32 render_example)

end
